theory Spec2Isabelle
  imports Complex_Main
begin

section \<open>The COCO dataset adapter of \<open>dataset/dent.py\<close>\<close>

text \<open>
  A shallow embedding of \<open>CocoDataset\<close>: \<open>resize_image\<close>, \<open>resize_mask\<close>, the
  \<open>resize\<close> wrapper and the label map that \<open>__getitem__\<close> builds.

  Conventions of the embedding.
  \<^item> Python integers are \<open>int\<close>; array dimensions are \<open>nat\<close>.
  \<^item> A Python float (the scale factor) is a rational, the exact value of the float.
    \<open>resize_image\<close> and \<open>resize_mask\<close> divide and multiply exactly; \<open>resize_image_fl\<close>
    repeats \<open>resize_image\<close> with the rounding of the float unit as a parameter.
  \<^item> An optional argument is an \<open>option\<close>; \<open>if x:\<close> on such an argument is true when
    it is neither \<open>None\<close> nor zero.
  \<^item> Every exception is a value \<open>Inl e\<close> of the result type \<open>error + 'a\<close>.
  \<^item> The routines of NumPy, SciPy, scikit-image and pycocotools are not part of the
    repository. Their shapes, slices and paddings are modelled after their documented
    behaviour; the element values and element types that interpolation, casting and
    type promotion produce are taken from a parameter of type \<open>library\<close>.
  \<^item> \<open>random.randint\<close> draws from the process-wide generator; the two raw draws that
    \<open>resize_image\<close> may consume are arguments, and every value of the requested
    range is reached by some draw.
\<close>

subsection \<open>Errors, arrays and the library parameter\<close>

datatype error =
    TypeError
  | ValueError
  | IndexError
  | ZeroDivisionError
  | OverflowError
  | AssertionError
  | RuntimeError
  | IOError
  | Exception string

datatype dtype = Bool | UInt8 | UInt16 | Int16 | Int32 | Int64 | Float32 | Float64

text \<open>
  A NumPy array: its element type, its shape, and its elements by index vector. Only the
  values at index vectors inside the shape are meaningful.
\<close>

record ndarray =
  dtype :: dtype
  shape :: "nat list"
  data :: "nat list \<Rightarrow> rat"

text \<open>
  What the embedding takes from the numeric libraries without modelling it:
  \<open>skimage_ge_0_14\<close> is the test \<open>LooseVersion(skimage.__version__) >= LooseVersion("0.14")\<close>;
  \<open>transform_resize\<close> gives the element type and elements of
  \<open>skimage.transform.resize\<close> (its flag says whether the anti-aliasing keywords were
  passed); \<open>zoom_result\<close> those of \<open>scipy.ndimage.zoom\<close> at order 0; \<open>cast\<close> converts one
  element for \<open>astype\<close>; \<open>result_type\<close> is NumPy's type promotion for two arrays;
  \<open>scalar_product\<close> is the product of an array with a Python integer that does not fit
  the element type of the array (NumPy 2 raises \<open>OverflowError\<close>, NumPy 1 widens the
  element type).
\<close>

record library =
  skimage_ge_0_14 :: bool
  transform_resize :: "bool \<Rightarrow> ndarray \<Rightarrow> int \<times> int \<Rightarrow> ndarray"
  zoom_result :: "ndarray \<Rightarrow> rat list \<Rightarrow> ndarray"
  cast :: "dtype \<Rightarrow> dtype \<Rightarrow> rat \<Rightarrow> rat"
  result_type :: "dtype \<Rightarrow> dtype \<Rightarrow> dtype"
  scalar_product :: "ndarray \<Rightarrow> int \<Rightarrow> error + ndarray"

definition bindE :: "error + 'a \<Rightarrow> ('a \<Rightarrow> error + 'b) \<Rightarrow> error + 'b" where
  "bindE m f = (case m of Inl e \<Rightarrow> Inl e | Inr x \<Rightarrow> f x)"

subsection \<open>Python and library primitives\<close>

text \<open>Python 3's \<open>round\<close> on a float: to the nearest integer, a tie to the even one.\<close>

definition py_round :: "rat \<Rightarrow> int" where
  "py_round x =
     (let f = \<lfloor>x\<rfloor>; r = x - of_int f in
      if r < 1 / 2 then f
      else if 1 / 2 < r then f + 1
      else if even f then f else f + 1)"

text \<open>
  \<open>random.randint(a, b)\<close>: \<open>ValueError\<close> on an empty range, else a value of \<open>[a, b]\<close>
  chosen by the raw draw \<open>r\<close>.
\<close>

definition randint :: "int \<Rightarrow> int \<Rightarrow> nat \<Rightarrow> error + int" where
  "randint a b r = (if b < a then Inl ValueError else Inr (a + int r mod (b - a + 1)))"

text \<open>
  \<open>slice(start, stop).indices(n)\<close>: a negative bound counts from the end, both bounds
  are clipped to \<open>[0, n]\<close>; the result is the first index and the number of elements.
\<close>

definition slice_indices :: "int \<Rightarrow> int \<Rightarrow> int \<Rightarrow> nat \<times> nat" where
  "slice_indices n start stop =
     (let a = (if start < 0 then max (start + n) 0 else min start n);
          b = (if stop < 0 then max (stop + n) 0 else min stop n)
      in (nat a, nat (b - a)))"

text \<open>\<open>a[y0:y1, x0:x1]\<close> on the two leading axes.\<close>

definition slice2 :: "ndarray \<Rightarrow> int \<Rightarrow> int \<Rightarrow> int \<Rightarrow> int \<Rightarrow> error + ndarray" where
  "slice2 a y0 y1 x0 x1 =
     (case shape a of
        h # w # rest \<Rightarrow>
          (let (ys, yl) = slice_indices (int h) y0 y1;
               (xs, xl) = slice_indices (int w) x0 x1
           in Inr \<lparr>dtype = dtype a, shape = yl # xl # rest,
                   data = (\<lambda>idx. case idx of
                             i # j # r \<Rightarrow> data a ((ys + i) # (xs + j) # r)
                           | _ \<Rightarrow> 0)\<rparr>)
      | _ \<Rightarrow> Inl IndexError)"

text \<open>
  \<open>np.pad(a, pad_width, mode='constant', constant_values=0)\<close> for a list of
  (before, after) pairs: one pair per axis, or a single pair for all axes; anything else,
  and a negative count, is a \<open>ValueError\<close>.
\<close>

definition pad_inside :: "nat list \<Rightarrow> (int \<times> int) list \<Rightarrow> nat list \<Rightarrow> bool" where
  "pad_inside shp pw idx =
     (length idx = length shp \<and>
      list_all (\<lambda>(d, p, i). nat (fst p) \<le> i \<and> i < nat (fst p) + d) (zip shp (zip pw idx)))"

definition np_pad :: "ndarray \<Rightarrow> (int \<times> int) list \<Rightarrow> error + ndarray" where
  "np_pad a pad_width =
     (let n = length (shape a) in
      if length pad_width \<noteq> n \<and> length pad_width \<noteq> 1 then Inl ValueError
      else
        let pw = (if length pad_width = n then pad_width else replicate n (hd pad_width)) in
        if list_ex (\<lambda>p. fst p < 0 \<or> snd p < 0) pw then Inl ValueError
        else Inr \<lparr>dtype = dtype a,
                  shape = map2 (\<lambda>d p. nat (int d + fst p + snd p)) (shape a) pw,
                  data = (\<lambda>idx. if pad_inside (shape a) pw idx
                                 then data a (map2 (\<lambda>i p. i - nat (fst p)) idx pw)
                                 else 0)\<rparr>)"

text \<open>\<open>a.astype(t)\<close>: the same shape, every element converted.\<close>

definition astype :: "library \<Rightarrow> ndarray \<Rightarrow> dtype \<Rightarrow> ndarray" where
  "astype lib a t = \<lparr>dtype = t, shape = shape a, data = (\<lambda>idx. cast lib (dtype a) t (data a idx))\<rparr>"

text \<open>
  \<open>skimage.transform.resize(img, output_shape, ...)\<close> with a two-element
  \<open>output_shape\<close>: a two-dimensional image gets that shape, a three-dimensional one keeps
  its channel axis, more axes are a \<open>ValueError\<close>. An output dimension of 0 gives an
  empty array; a negative one is an error. That some versions of the library refuse an
  array of Booleans is not modelled: an image is an array of unsigned 8-bit elements.
\<close>

definition skimage_transform_resize ::
    "library \<Rightarrow> bool \<Rightarrow> ndarray \<Rightarrow> int \<times> int \<Rightarrow> error + ndarray" where
  "skimage_transform_resize lib anti_aliasing_given img output_shape =
     (let (rows, cols) = output_shape;
          out = transform_resize lib anti_aliasing_given img output_shape
      in if rows < 0 \<or> cols < 0 then Inl ValueError
         else case shape img of
                [_, _] \<Rightarrow> Inr (out\<lparr>shape := [nat rows, nat cols]\<rparr>)
              | [_, _, c] \<Rightarrow> Inr (out\<lparr>shape := [nat rows, nat cols, c]\<rparr>)
              | _ \<Rightarrow> Inl ValueError)"

text \<open>
  \<open>scipy.ndimage.zoom(input, zoom, order=0)\<close> with a list of zoom factors: one factor
  per axis (else \<open>RuntimeError\<close>); axis \<open>k\<close> of the output has
  \<open>int(round(input.shape[k] * zoom[k]))\<close> elements. An axis of 0 elements gives an
  empty array; a negative number of elements is an error.
\<close>

definition ndimage_zoom :: "library \<Rightarrow> ndarray \<Rightarrow> rat list \<Rightarrow> error + ndarray" where
  "ndimage_zoom lib input zoom =
     (if length zoom \<noteq> length (shape input) then Inl RuntimeError
      else
        let output_shape = map2 (\<lambda>ii jj. py_round (of_nat ii * jj)) (shape input) zoom in
        if list_ex (\<lambda>d. d < 0) output_shape then Inl ValueError
        else Inr ((zoom_result lib input zoom)\<lparr>shape := map nat output_shape\<rparr>))"

text \<open>\<open>list.pop(i)\<close> for \<open>i \<ge> 0\<close>: the list without element \<open>i\<close>, \<open>None\<close> for \<open>IndexError\<close>.\<close>

definition list_pop :: "'a list \<Rightarrow> nat \<Rightarrow> 'a list option" where
  "list_pop xs i = (if i < length xs then Some (take i xs @ drop (Suc i) xs) else None)"

subsection \<open>\<open>CocoDataset.resize\<close> (lines 218-239)\<close>

definition resize :: "library \<Rightarrow> ndarray \<Rightarrow> int \<times> int \<Rightarrow> error + ndarray" where
  "resize lib img output_shape =
     (if skimage_ge_0_14 lib
      then skimage_transform_resize lib True img output_shape
      else skimage_transform_resize lib False img output_shape)"

subsection \<open>\<open>CocoDataset.resize_image\<close> (lines 88-193)\<close>

type_synonym window = "int \<times> int \<times> int \<times> int"

record resized =
  r_image :: ndarray
  r_window :: window
  r_scale :: rat
  r_padding :: "(int \<times> int) list"
  r_crop :: "window option"

text \<open>Lines 133-144: the scale factor, from the original height and width.\<close>

definition compute_scale ::
    "int \<Rightarrow> int \<Rightarrow> int option \<Rightarrow> int option \<Rightarrow> rat option \<Rightarrow> string \<Rightarrow> error + rat" where
  "compute_scale h w min_dim max_dim min_scale mode =
     bindE
       (case min_dim of
          None \<Rightarrow> Inr 1
        | Some d \<Rightarrow>
            if d \<noteq> 0
            then (if min h w = 0 then Inl ZeroDivisionError
                  else Inr (max 1 (of_int d / of_int (min h w))))
            else Inr 1)
       (\<lambda>scale.
          let scale = (case min_scale of
                         None \<Rightarrow> scale
                       | Some m \<Rightarrow> if m \<noteq> 0 \<and> scale < m then m else scale)
          in case max_dim of
               None \<Rightarrow> Inr scale
             | Some d \<Rightarrow>
                 if d \<noteq> 0 \<and> mode = ''square''
                 then (let image_max = max h w in
                       if py_round (of_int image_max * scale) > d
                       then (if image_max = 0 then Inl ZeroDivisionError
                             else Inr (of_int d / of_int image_max))
                       else Inr scale)
                 else Inr scale)"

text \<open>
  The value of \<open>scale\<close> after lines 134-138, before the cap of square mode, when the
  division at line 136 does not fail. Used to state facts about \<open>compute_scale\<close>.
\<close>

definition base_scale :: "int \<Rightarrow> int \<Rightarrow> int option \<Rightarrow> rat option \<Rightarrow> rat" where
  "base_scale h w min_dim min_scale =
     (let s = (case min_dim of
                 None \<Rightarrow> 1
               | Some d \<Rightarrow> if d \<noteq> 0 then max 1 (of_int d / of_int (min h w)) else 1)
      in case min_scale of
           None \<Rightarrow> s
         | Some m \<Rightarrow> if m \<noteq> 0 \<and> s < m then m else s)"

text \<open>Lines 146-149: the bilinear resampling, skipped when the scale is 1.\<close>

definition scale_image :: "library \<Rightarrow> ndarray \<Rightarrow> int \<Rightarrow> int \<Rightarrow> rat \<Rightarrow> error + ndarray" where
  "scale_image lib img h w scale =
     (if scale \<noteq> 1
      then resize lib img (py_round (of_int h * scale), py_round (of_int w * scale))
      else Inr img)"

text \<open>
  Lines 152-190: the three finishing modes. Each returns the image with its window,
  padding and crop.
\<close>

definition mode_square ::
    "ndarray \<Rightarrow> int option \<Rightarrow> error + ndarray \<times> window \<times> (int \<times> int) list \<times> window option" where
  "mode_square img max_dim =
     (case shape img of
        hn # wn # _ \<Rightarrow>
          (case max_dim of
             None \<Rightarrow> Inl TypeError
           | Some d \<Rightarrow>
               let h = int hn; w = int wn;
                   top_pad = (d - h) div 2;
                   bottom_pad = d - h - top_pad;
                   left_pad = (d - w) div 2;
                   right_pad = d - w - left_pad;
                   padding = [(top_pad, bottom_pad), (left_pad, right_pad), (0, 0)]
               in bindE (np_pad img padding)
                    (\<lambda>img. Inr (img, (top_pad, left_pad, h + top_pad, w + left_pad),
                                   padding, None)))
      | _ \<Rightarrow> Inl ValueError)"

definition mode_pad64 ::
    "ndarray \<Rightarrow> int option \<Rightarrow> error + ndarray \<times> window \<times> (int \<times> int) list \<times> window option" where
  "mode_pad64 img min_dim =
     (case shape img of
        hn # wn # _ \<Rightarrow>
          (case min_dim of
             None \<Rightarrow> Inl TypeError
           | Some d \<Rightarrow>
               if d mod 64 \<noteq> 0 then Inl AssertionError
               else
                 let h = int hn; w = int wn;
                     (top_pad, bottom_pad) =
                       (if h mod 64 > 0
                        then (let max_h = h - (h mod 64) + 64;
                                  top_pad = (max_h - h) div 2
                              in (top_pad, max_h - h - top_pad))
                        else (0, 0));
                     (left_pad, right_pad) =
                       (if w mod 64 > 0
                        then (let max_w = w - (w mod 64) + 64;
                                  left_pad = (max_w - w) div 2
                              in (left_pad, max_w - w - left_pad))
                        else (0, 0));
                     padding = [(top_pad, bottom_pad), (left_pad, right_pad), (0, 0)]
                 in bindE (np_pad img padding)
                      (\<lambda>img. Inr (img, (top_pad, left_pad, h + top_pad, w + left_pad),
                                     padding, None)))
      | _ \<Rightarrow> Inl ValueError)"

definition mode_crop ::
    "ndarray \<Rightarrow> int option \<Rightarrow> nat \<Rightarrow> nat
       \<Rightarrow> error + ndarray \<times> window \<times> (int \<times> int) list \<times> window option" where
  "mode_crop img min_dim ry rx =
     (case shape img of
        hn # wn # _ \<Rightarrow>
          (case min_dim of
             None \<Rightarrow> Inl TypeError
           | Some d \<Rightarrow>
               bindE (randint 0 (int hn - d) ry) (\<lambda>y.
               bindE (randint 0 (int wn - d) rx) (\<lambda>x.
               bindE (slice2 img y (y + d) x (x + d)) (\<lambda>img.
                 Inr (img, (0, 0, d, d), [(0, 0), (0, 0), (0, 0)], Some (y, x, d, d))))))
      | _ \<Rightarrow> Inl ValueError)"

definition resize_image ::
    "library \<Rightarrow> ndarray \<Rightarrow> int option \<Rightarrow> int option \<Rightarrow> rat option \<Rightarrow> string
       \<Rightarrow> nat \<Rightarrow> nat \<Rightarrow> error + resized" where
  "resize_image lib img min_dim max_dim min_scale mode ry rx =
     (let image_dtype = dtype img in
      case shape img of
        hn # wn # _ \<Rightarrow>
          let h = int hn; w = int wn in
          if mode = ''none''
          then Inr \<lparr>r_image = img, r_window = (0, 0, h, w), r_scale = 1,
                    r_padding = [(0, 0), (0, 0), (0, 0)], r_crop = None\<rparr>
          else
            bindE (compute_scale h w min_dim max_dim min_scale mode) (\<lambda>scale.
            bindE (scale_image lib img h w scale) (\<lambda>img.
            bindE (if mode = ''square'' then mode_square img max_dim
                   else if mode = ''pad64'' then mode_pad64 img min_dim
                   else if mode = ''crop'' then mode_crop img min_dim ry rx
                   else Inl (Exception (''Mode '' @ mode @ '' not supported'')))
              (\<lambda>(img, window, padding, crop).
                 Inr \<lparr>r_image = astype lib img image_dtype, r_window = window, r_scale = scale,
                       r_padding = padding, r_crop = crop\<rparr>)))
      | _ \<Rightarrow> Inl ValueError)"

subsection \<open>The scale under the rounding of float arithmetic\<close>

text \<open>
  \<open>compute_scale\<close> and \<open>scale_image\<close> divide and multiply exactly. Python computes
  \<open>min_dim / min(h, w)\<close>, \<open>max_dim / image_max\<close> and \<open>h * scale\<close> in binary64: each
  result is the exact one, rounded. The definitions of this section repeat lines 133-149
  with that rounding as a parameter \<open>rnd\<close>. Without rounding they are the definitions
  above (\<open>resize_image_fl_exact\<close>); with \<open>binary64\<close> they are what the interpreter
  computes. The two differ where an exact product is a rounding tie
  (\<open>exact_arithmetic_differs\<close>).
\<close>

text \<open>The number of binary digits of \<open>n\<close>, and \<open>\<lfloor>log\<^sub>2 x\<rfloor>\<close> for a positive \<open>x\<close>.\<close>

fun bit_length :: "nat \<Rightarrow> nat" where
  "bit_length n = (if n = 0 then 0 else Suc (bit_length (n div 2)))"

declare bit_length.simps [simp del]

definition ilog2 :: "rat \<Rightarrow> int" where
  "ilog2 x = (if 1 \<le> x then int (bit_length (nat \<lfloor>x\<rfloor>)) - 1
              else - int (bit_length (nat (\<lceil>1 / x\<rceil> - 1))))"

text \<open>
  \<open>binary64 x\<close> is the binary64 number nearest to \<open>x\<close>, a tie going to the even
  significand: \<open>x\<close> is scaled by a power of two into the range from \<open>2^52\<close> to \<open>2^53\<close>,
  rounded to an integer, and scaled back. The exponent is not bounded: overflow and
  subnormal numbers (beyond about \<open>1.8e308\<close>, below about \<open>2.2e-308\<close>) are not modelled.
\<close>

definition pow2 :: "int \<Rightarrow> rat" where
  "pow2 e = (if 0 \<le> e then 2 ^ nat e else 1 / 2 ^ nat (- e))"

definition binary64 :: "rat \<Rightarrow> rat" where
  "binary64 x =
     (if x = 0 then 0
      else let e = ilog2 \<bar>x\<bar> - 52 in of_int (py_round (x / pow2 e)) * pow2 e)"

text \<open>
  \<open>a / b\<close> on two Python integers is the correctly rounded quotient. \<open>n * scale\<close> on a
  Python integer and the scale: \<open>scale\<close> is the integer 1 until line 136, 138 or 144
  assigns a float, and a float assigned at line 136 or 138 exceeds 1; so where line 143
  finds the value 1 it is the integer and the product is exact, and line 148 is reached
  only for another value. For a float the integer is converted and then multiplied, with
  a rounding each. A \<open>min_scale\<close> is taken to be a float.
\<close>

definition float_div :: "(rat \<Rightarrow> rat) \<Rightarrow> int \<Rightarrow> int \<Rightarrow> rat" where
  "float_div rnd a b = rnd (of_int a / of_int b)"

definition int_times :: "(rat \<Rightarrow> rat) \<Rightarrow> int \<Rightarrow> rat \<Rightarrow> rat" where
  "int_times rnd n scale = (if scale = 1 then of_int n else rnd (rnd (of_int n) * scale))"

text \<open>Lines 133-144, 146-149 and the whole of \<open>resize_image\<close>, under the rounding \<open>rnd\<close>.\<close>

definition compute_scale_fl ::
    "(rat \<Rightarrow> rat) \<Rightarrow> int \<Rightarrow> int \<Rightarrow> int option \<Rightarrow> int option \<Rightarrow> rat option \<Rightarrow> string
       \<Rightarrow> error + rat" where
  "compute_scale_fl rnd h w min_dim max_dim min_scale mode =
     bindE
       (case min_dim of
          None \<Rightarrow> Inr 1
        | Some d \<Rightarrow>
            if d \<noteq> 0
            then (if min h w = 0 then Inl ZeroDivisionError
                  else Inr (max 1 (float_div rnd d (min h w))))
            else Inr 1)
       (\<lambda>scale.
          let scale = (case min_scale of
                         None \<Rightarrow> scale
                       | Some m \<Rightarrow> if m \<noteq> 0 \<and> scale < m then m else scale)
          in case max_dim of
               None \<Rightarrow> Inr scale
             | Some d \<Rightarrow>
                 if d \<noteq> 0 \<and> mode = ''square''
                 then (let image_max = max h w in
                       if py_round (int_times rnd image_max scale) > d
                       then (if image_max = 0 then Inl ZeroDivisionError
                             else Inr (float_div rnd d image_max))
                       else Inr scale)
                 else Inr scale)"

definition scale_image_fl ::
    "(rat \<Rightarrow> rat) \<Rightarrow> library \<Rightarrow> ndarray \<Rightarrow> int \<Rightarrow> int \<Rightarrow> rat \<Rightarrow> error + ndarray" where
  "scale_image_fl rnd lib img h w scale =
     (if scale \<noteq> 1
      then resize lib img (py_round (int_times rnd h scale), py_round (int_times rnd w scale))
      else Inr img)"

definition resize_image_fl ::
    "(rat \<Rightarrow> rat) \<Rightarrow> library \<Rightarrow> ndarray \<Rightarrow> int option \<Rightarrow> int option \<Rightarrow> rat option \<Rightarrow> string
       \<Rightarrow> nat \<Rightarrow> nat \<Rightarrow> error + resized" where
  "resize_image_fl rnd lib img min_dim max_dim min_scale mode ry rx =
     (let image_dtype = dtype img in
      case shape img of
        hn # wn # _ \<Rightarrow>
          let h = int hn; w = int wn in
          if mode = ''none''
          then Inr \<lparr>r_image = img, r_window = (0, 0, h, w), r_scale = 1,
                    r_padding = [(0, 0), (0, 0), (0, 0)], r_crop = None\<rparr>
          else
            bindE (compute_scale_fl rnd h w min_dim max_dim min_scale mode) (\<lambda>scale.
            bindE (scale_image_fl rnd lib img h w scale) (\<lambda>img.
            bindE (if mode = ''square'' then mode_square img max_dim
                   else if mode = ''pad64'' then mode_pad64 img min_dim
                   else if mode = ''crop'' then mode_crop img min_dim ry rx
                   else Inl (Exception (''Mode '' @ mode @ '' not supported'')))
              (\<lambda>(img, window, padding, crop).
                 Inr \<lparr>r_image = astype lib img image_dtype, r_window = window, r_scale = scale,
                       r_padding = padding, r_crop = crop\<rparr>)))
      | _ \<Rightarrow> Inl ValueError)"

subsection \<open>\<open>CocoDataset.resize_mask\<close> (lines 196-216)\<close>

text \<open>
  The padding list is the caller's object and \<open>padding.pop(2)\<close> changes it in place: the
  second component of the result is the list as the caller finds it after the call.
\<close>

definition resize_mask ::
    "library \<Rightarrow> ndarray \<Rightarrow> rat \<Rightarrow> (int \<times> int) list \<Rightarrow> window option
       \<Rightarrow> (error + ndarray) \<times> (int \<times> int) list" where
  "resize_mask lib msk scale padding crop =
     (case ndimage_zoom lib msk [scale, scale] of
        Inl e \<Rightarrow> (Inl e, padding)
      | Inr msk \<Rightarrow>
          (case crop of
             Some (y, x, h, w) \<Rightarrow> (slice2 msk y (y + h) x (x + w), padding)
           | None \<Rightarrow>
               (case list_pop padding 2 of
                  None \<Rightarrow> (Inl IndexError, padding)
                | Some padding \<Rightarrow> (np_pad msk padding, padding))))"

subsection \<open>The label map of \<open>CocoDataset.__getitem__\<close> (lines 66-75)\<close>

text \<open>
  An annotation of the COCO file, as far as \<open>__getitem__\<close> reads it: its category id,
  and what \<open>coco.annToMask\<close> rasterises: the height and width the annotation file
  records for the image, and the pixels the instance covers.
\<close>

record annotation =
  category_id :: int
  img_height :: nat
  img_width :: nat
  segmentation :: "nat \<Rightarrow> nat \<Rightarrow> bool"

text \<open>\<open>coco.annToMask(ann)\<close>: a binary array, 1 on the pixels of the instance.\<close>

definition annToMask :: "annotation \<Rightarrow> ndarray" where
  "annToMask ann =
     \<lparr>dtype = UInt8, shape = [img_height ann, img_width ann],
      data = (\<lambda>idx. case idx of
                [i, j] \<Rightarrow> if i < img_height ann \<and> j < img_width ann \<and> segmentation ann i j
                          then 1 else 0
              | _ \<Rightarrow> 0)\<rparr>"

text \<open>\<open>np.zeros(shape)\<close>: an array of 64-bit floats.\<close>

definition np_zeros :: "nat list \<Rightarrow> ndarray" where
  "np_zeros shp = \<lparr>dtype = Float64, shape = shp, data = (\<lambda>idx. 0)\<rparr>"

text \<open>
  \<open>a * k\<close> for an array and a Python integer. On an array of unsigned 8-bit elements
  (what \<open>annToMask\<close> returns) and \<open>0 \<le> k \<le> 255\<close> the product keeps the element type
  and wraps modulo 256. A \<open>k\<close> outside that range does not fit the element type: what
  happens then depends on the NumPy version and is taken from the library parameter, as
  is the product for any other element type.
\<close>

definition mul_scalar :: "library \<Rightarrow> ndarray \<Rightarrow> int \<Rightarrow> error + ndarray" where
  "mul_scalar lib a k =
     (if dtype a = UInt8 \<and> 0 \<le> k \<and> k \<le> 255
      then Inr \<lparr>dtype = UInt8, shape = shape a,
                data = (\<lambda>idx. of_int ((\<lfloor>data a idx\<rfloor> * k) mod 256))\<rparr>
      else scalar_product lib a k)"

text \<open>
  NumPy broadcasting, on the reversed shapes: trailing axes are aligned, two lengths are
  compatible when they are equal or one of them is 1.
\<close>

fun broadcast_rev :: "nat list \<Rightarrow> nat list \<Rightarrow> nat list option" where
  "broadcast_rev [] ys = Some ys"
| "broadcast_rev xs [] = Some xs"
| "broadcast_rev (x # xs) (y # ys) =
     (if x = y \<or> y = 1 then map_option ((#) x) (broadcast_rev xs ys)
      else if x = 1 then map_option ((#) y) (broadcast_rev xs ys)
      else None)"

definition broadcast_shapes :: "nat list \<Rightarrow> nat list \<Rightarrow> nat list option" where
  "broadcast_shapes s1 s2 = map_option rev (broadcast_rev (rev s1) (rev s2))"

definition broadcast_index :: "nat list \<Rightarrow> nat list \<Rightarrow> nat list" where
  "broadcast_index shp idx =
     map2 (\<lambda>d i. if d = 1 then 0 else i) shp (drop (length idx - length shp) idx)"

text \<open>\<open>np.maximum(a, b)\<close>: the element-wise maximum of the two broadcast arrays.\<close>

definition np_maximum :: "library \<Rightarrow> ndarray \<Rightarrow> ndarray \<Rightarrow> error + ndarray" where
  "np_maximum lib a b =
     (case broadcast_shapes (shape a) (shape b) of
        None \<Rightarrow> Inl ValueError
      | Some s \<Rightarrow>
          Inr \<lparr>dtype = result_type lib (dtype a) (dtype b), shape = s,
                data = (\<lambda>idx. max (data a (broadcast_index (shape a) idx))
                                   (data b (broadcast_index (shape b) idx)))\<rparr>)"

text \<open>Lines 71-75: the loop over the annotations of the image.\<close>

fun label_loop :: "library \<Rightarrow> bool \<Rightarrow> int \<Rightarrow> ndarray \<Rightarrow> annotation list \<Rightarrow> error + ndarray" where
  "label_loop lib test step msk [] = Inr msk"
| "label_loop lib test step msk (ann # anns) =
     bindE (if test
            then bindE (mul_scalar lib (annToMask ann) (category_id ann)) (np_maximum lib msk)
            else bindE (mul_scalar lib (annToMask ann) (step + 1)) (np_maximum lib msk))
       (\<lambda>msk. label_loop lib test step msk anns)"

text \<open>Lines 70-75: \<open>mask = np.zeros((w, h))\<close> followed by the loop.\<close>

definition label_map :: "library \<Rightarrow> bool \<Rightarrow> int \<Rightarrow> nat \<Rightarrow> nat \<Rightarrow> annotation list \<Rightarrow> error + ndarray" where
  "label_map lib test step w h anns = label_loop lib test step (np_zeros [w, h]) anns"

subsection \<open>\<open>CocoDataset.__getitem__\<close> and \<open>__len__\<close> (lines 51-86)\<close>

text \<open>
  The dataset object: the image ids, the decoded RGB image of an id (\<open>coco.loadImgs\<close>,
  \<open>Image.open(...).convert('RGB')\<close> and \<open>np.array\<close>; an unreadable file is an error),
  the annotations of an id (\<open>getCatIds\<close>, \<open>getAnnIds\<close>, \<open>loadAnns\<close>), the step, the
  test flag and the optional transform.
\<close>

record dataset =
  ds_ids :: "int list"
  ds_images :: "int \<Rightarrow> error + ndarray"
  ds_anns :: "int \<Rightarrow> annotation list"
  ds_step :: int
  ds_test :: bool
  ds_transform :: "(ndarray \<Rightarrow> error + ndarray) option"

text \<open>\<open>xs[i]\<close> on a Python list: a negative index counts from the end.\<close>

definition list_get :: "'a list \<Rightarrow> int \<Rightarrow> error + 'a" where
  "list_get xs i =
     (if 0 \<le> i \<and> i < int (length xs) then Inr (xs ! nat i)
      else if i < 0 \<and> - int (length xs) \<le> i then Inr (xs ! nat (int (length xs) + i))
      else Inl IndexError)"

text \<open>\<open>np.transpose(a, (2, 0, 1))\<close>: only for three axes.\<close>

definition transpose_201 :: "ndarray \<Rightarrow> error + ndarray" where
  "transpose_201 a =
     (case shape a of
        [h, w, c] \<Rightarrow>
          Inr \<lparr>dtype = dtype a, shape = [c, h, w],
                data = (\<lambda>idx. case idx of [k, i, j] \<Rightarrow> data a [i, j, k] | _ \<Rightarrow> 0)\<rparr>
      | _ \<Rightarrow> Inl ValueError)"

definition getitem :: "library \<Rightarrow> dataset \<Rightarrow> int \<Rightarrow> nat \<Rightarrow> nat \<Rightarrow> error + ndarray \<times> ndarray" where
  "getitem lib self index ry rx =
     bindE (list_get (ds_ids self) index) (\<lambda>img_id.
     bindE (ds_images self img_id) (\<lambda>img.
       case shape img of
         w # h # _ \<Rightarrow>
           bindE (resize_image lib img (Some 1024) (Some 1024) (Some 0) ''square'' ry rx) (\<lambda>r.
           bindE (transpose_201 (r_image r)) (\<lambda>img.
           bindE (label_map lib (ds_test self) (ds_step self) w h (ds_anns self img_id)) (\<lambda>msk.
             case fst (resize_mask lib msk (r_scale r) (r_padding r) (r_crop r)) of
               Inl e \<Rightarrow> Inl e
             | Inr msk \<Rightarrow>
                 (case ds_transform self of
                    None \<Rightarrow> Inr (img, msk)
                  | Some t \<Rightarrow> bindE (t img) (\<lambda>img. bindE (t msk) (\<lambda>msk. Inr (img, msk)))))))
       | _ \<Rightarrow> Inl IndexError))"

definition len :: "dataset \<Rightarrow> nat" where
  "len self = length (ds_ids self)"

subsection \<open>The specification's wording, for comparison with the code\<close>

text \<open>
  The scale factor as section 4.1 (steps 3 to 5) of the specification words it, for a
  provided \<open>min_dim\<close>: \<open>max(1, min_dim / min(h, w))\<close>, raised to a provided \<open>min_scale\<close>
  that exceeds it, and in square mode with a provided \<open>max_dim\<close> replaced by
  \<open>max_dim / max(h, w)\<close> when the rounded longest side would exceed \<open>max_dim\<close>. The
  quotients and the product are those of the float unit, whose rounding is \<open>rnd\<close>.
\<close>

definition spec_scale ::
    "(rat \<Rightarrow> rat) \<Rightarrow> int \<Rightarrow> int \<Rightarrow> int \<Rightarrow> int option \<Rightarrow> rat option \<Rightarrow> string \<Rightarrow> rat" where
  "spec_scale rnd h w min_dim max_dim min_scale mode =
     (let s = max 1 (float_div rnd min_dim (min h w));
          s = (case min_scale of None \<Rightarrow> s | Some m \<Rightarrow> if s < m then m else s)
      in case max_dim of
           None \<Rightarrow> s
         | Some d \<Rightarrow>
             if mode = ''square'' \<and> py_round (int_times rnd (max h w) s) > d
             then float_div rnd d (max h w)
             else s)"

text \<open>
  The label of a pixel as the specification words it: the greatest label value among
  the instances that cover the pixel, 0 when none does.
\<close>

definition label_value :: "bool \<Rightarrow> int \<Rightarrow> annotation \<Rightarrow> int" where
  "label_value test step ann = (if test then category_id ann else step + 1)"

definition covering :: "annotation list \<Rightarrow> nat \<Rightarrow> nat \<Rightarrow> annotation list" where
  "covering anns i j = filter (\<lambda>ann. segmentation ann i j) anns"

definition spec_label :: "bool \<Rightarrow> int \<Rightarrow> annotation list \<Rightarrow> nat \<Rightarrow> nat \<Rightarrow> int" where
  "spec_label test step anns i j =
     (case covering anns i j of
        [] \<Rightarrow> 0
      | a # as \<Rightarrow> fold (\<lambda>ann m. max (label_value test step ann) m) as (label_value test step a))"

text \<open>
  The value the loop of lines 71-75 leaves at pixel \<open>(i, j)\<close> when it starts from the value
  \<open>v\<close>: every annotation contributes its label where it covers the pixel and 0 elsewhere.
  Used to state the invariant of \<open>label_loop\<close>.
\<close>

definition pixel_fold :: "bool \<Rightarrow> int \<Rightarrow> nat \<Rightarrow> nat \<Rightarrow> annotation list \<Rightarrow> rat \<Rightarrow> rat" where
  "pixel_fold test step i j anns v =
     foldl (\<lambda>v ann. max v (if segmentation ann i j then of_int (label_value test step ann) else 0)) v anns"

subsection \<open>Example inputs\<close>

text \<open>
  A library whose interpolation returns 64-bit floats and which refuses a Python integer
  that does not fit the element type (NumPy 2), and an 8-bit RGB image.
\<close>

definition lib0 :: library where
  "lib0 = \<lparr>skimage_ge_0_14 = True,
            transform_resize = (\<lambda>_ a _. a\<lparr>dtype := Float64\<rparr>),
            zoom_result = (\<lambda>a _. a),
            cast = (\<lambda>_ _ x. x),
            result_type = (\<lambda>_ _. Float64),
            scalar_product = (\<lambda>_ _. Inl OverflowError)\<rparr>"

definition img0 :: ndarray where
  "img0 = \<lparr>dtype = UInt8, shape = [600, 800, 3], data = (\<lambda>_. 0)\<rparr>"

text \<open>An 8-bit RGB image of height 100 and width 200.\<close>

definition img1 :: ndarray where
  "img1 = \<lparr>dtype = UInt8, shape = [100, 200, 3], data = (\<lambda>_. 0)\<rparr>"

text \<open>An 8-bit RGB image of height 384 and width 393.\<close>

definition img2 :: ndarray where
  "img2 = \<lparr>dtype = UInt8, shape = [384, 393, 3], data = (\<lambda>_. 0)\<rparr>"

text \<open>A label map of height 600 and width 800.\<close>

definition msk0 :: ndarray where
  "msk0 = \<lparr>dtype = Float64, shape = [600, 800], data = (\<lambda>_. 0)\<rparr>"

text \<open>
  Two instances on a 2 by 2 image: the first row with category 2, the second column with
  category 3.
\<close>

definition ann2 :: annotation where
  "ann2 = \<lparr>category_id = 2, img_height = 2, img_width = 2,
            segmentation = (\<lambda>i j. i = 0)\<rparr>"

definition ann3 :: annotation where
  "ann3 = \<lparr>category_id = 3, img_height = 2, img_width = 2,
            segmentation = (\<lambda>i j. j = 1)\<rparr>"

section \<open>Properties\<close>

subsection \<open>Auxiliary facts\<close>

lemma bindE_simps [simp]: "bindE (Inl e) f = Inl e" "bindE (Inr x) f = f x"
  by (simp_all add: bindE_def)

lemma bindE_eq_Inr: "bindE m f = Inr y \<longleftrightarrow> (\<exists>x. m = Inr x \<and> f x = Inr y)"
  by (cases m) simp_all

lemma py_round_of_int [simp]: "py_round (of_int n) = n"
  by (simp add: py_round_def)

lemma py_round_of_nat [simp]: "py_round (of_nat n) = int n"
  using py_round_of_int [of "int n"] by simp

lemma py_round_numeral [simp]: "py_round (numeral n) = numeral n"
  using py_round_of_int [of "numeral n"] by simp

lemma py_round_zero [simp]: "py_round 0 = 0"
  using py_round_of_int [of 0] by simp

subsection \<open>The resampling step\<close>

lemma resize_Inr:
  assumes "resize lib img (rows, cols) = Inr out"
  shows "0 \<le> rows \<and> 0 \<le> cols \<and>
         (\<exists>a b rest. shape img = a # b # rest \<and> length rest \<le> 1 \<and>
            shape out = nat rows # nat cols # rest)"
  using assms
  by (auto simp add: resize_def skimage_transform_resize_def Let_def split: if_splits list.splits)

lemma resize_ok:
  assumes "0 \<le> rows" "0 \<le> cols" "shape img = a # b # rest" "length rest \<le> 1"
  shows "\<exists>out. resize lib img (rows, cols) = Inr out \<and> shape out = nat rows # nat cols # rest"
  using assms
  by (cases rest) (auto simp add: resize_def skimage_transform_resize_def Let_def split: list.splits)



lemma scale_image_ok:
  assumes "shape img = hn # wn # rest" "length rest \<le> 1"
    "0 \<le> py_round (of_nat hn * s)" "0 \<le> py_round (of_nat wn * s)"
  shows "\<exists>simg. scale_image lib img (int hn) (int wn) s = Inr simg \<and>
            shape simg = nat (py_round (of_nat hn * s)) # nat (py_round (of_nat wn * s)) # rest"
proof (cases "s = 1")
  case True
  then show ?thesis using assms by (simp add: scale_image_def)
next
  case False
  then show ?thesis
    using resize_ok [OF assms(3) assms(4) assms(1) assms(2), of lib]
    by (simp add: scale_image_def)
qed

subsection \<open>The scale\<close>

lemma compute_scale_unfold:
  assumes "min h w \<noteq> 0 \<or> min_dim = None \<or> min_dim = Some 0"
  shows "compute_scale h w min_dim max_dim min_scale mode =
           (let s = base_scale h w min_dim min_scale in
            case max_dim of
              None \<Rightarrow> Inr s
            | Some d \<Rightarrow>
                if d \<noteq> 0 \<and> mode = ''square''
                then (if py_round (of_int (max h w) * s) > d
                      then (if max h w = 0 then Inl ZeroDivisionError
                            else Inr (of_int d / of_int (max h w)))
                      else Inr s)
                else Inr s)"
proof -
  have first: "(case min_dim of
          None \<Rightarrow> Inr 1
        | Some d \<Rightarrow>
            if d \<noteq> 0
            then (if min h w = 0 then Inl ZeroDivisionError
                  else Inr (max 1 (of_int d / of_int (min h w))))
            else Inr 1) = (Inr (case min_dim of
                 None \<Rightarrow> 1
               | Some d \<Rightarrow> if d \<noteq> 0 then max 1 (of_int d / of_int (min h w)) else 1) :: error + rat)"
    using assms by (cases min_dim) auto
  show ?thesis
    unfolding compute_scale_def first bindE_simps base_scale_def Let_def ..
qed

lemma compute_scale_Some:
  assumes "0 < h" "0 < w"
  shows "compute_scale h w min_dim (Some d) min_scale mode =
           Inr (if d \<noteq> 0 \<and> mode = ''square''
                   \<and> d < py_round (of_int (max h w) * base_scale h w min_dim min_scale)
                then of_int d / of_int (max h w)
                else base_scale h w min_dim min_scale)"
proof -
  have "min h w \<noteq> 0" "max h w \<noteq> 0" using assms by auto
  then show ?thesis
    by (simp add: compute_scale_unfold Let_def)
qed

subsection \<open>Padding\<close>

lemma np_pad_Inr:
  assumes "np_pad a pw = Inr a'" "length pw \<noteq> 1"
  shows "length (shape a) = length pw" "\<not> list_ex (\<lambda>p. fst p < 0 \<or> snd p < 0) pw"
    "shape a' = map2 (\<lambda>d p. nat (int d + fst p + snd p)) (shape a) pw" "dtype a' = dtype a"
proof -
  have len: "length (shape a) = length pw"
    using assms by (simp add: np_pad_def Let_def split: if_splits)
  then show "length (shape a) = length pw" .
  have *: "\<not> list_ex (\<lambda>p. fst p < 0 \<or> snd p < 0) pw \<and>
        a' = \<lparr>dtype = dtype a, shape = map2 (\<lambda>d p. nat (int d + fst p + snd p)) (shape a) pw,
             data = (\<lambda>idx. if pad_inside (shape a) pw idx
                                 then data a (map2 (\<lambda>i p. i - nat (fst p)) idx pw)
                                 else 0)\<rparr>"
    using assms(1) len by (simp add: np_pad_def Let_def split: if_splits)
  then show "\<not> list_ex (\<lambda>p. fst p < 0 \<or> snd p < 0) pw" by simp
  from * show "shape a' = map2 (\<lambda>d p. nat (int d + fst p + snd p)) (shape a) pw" by simp
  from * show "dtype a' = dtype a" by simp
qed

lemma length3E: "length xs = 3 \<Longrightarrow> \<exists>a b c. xs = [a, b, c]"
  by (auto simp add: numeral_3_eq_3 length_Suc_conv)

lemma np_pad_3_Inr:
  assumes "np_pad a [(t, b), (l, r), (0, 0)] = Inr a'"
  shows "0 \<le> t \<and> 0 \<le> b \<and> 0 \<le> l \<and> 0 \<le> r \<and>
         (\<exists>h w c. shape a = [h, w, c] \<and> shape a' = [nat (int h + t + b), nat (int w + l + r), c])"
proof -
  have n1: "length [(t, b), (l, r), (0::int, 0::int)] \<noteq> 1" by simp
  from np_pad_Inr(1) [OF assms n1] have "length (shape a) = 3" by simp
  then obtain h w c where s: "shape a = [h, w, c]" using length3E by blast
  from np_pad_Inr(2) [OF assms n1] have nn: "0 \<le> t \<and> 0 \<le> b \<and> 0 \<le> l \<and> 0 \<le> r"
    by (simp add: not_less)
  from np_pad_Inr(3) [OF assms n1] s have "shape a' = [nat (int h + t + b), nat (int w + l + r), c]"
    by simp
  with s nn show ?thesis by blast
qed

lemma np_pad_3:
  assumes "shape a = [h, w, c]" "0 \<le> t" "0 \<le> b" "0 \<le> l" "0 \<le> r"
  shows "\<exists>a'. np_pad a [(t, b), (l, r), (0, 0)] = Inr a' \<and>
           shape a' = [nat (int h + t + b), nat (int w + l + r), c]"
  using assms by (simp add: np_pad_def Let_def)


subsection \<open>Square mode\<close>

lemma mode_square_ok:
  assumes "shape simg = [sh, sw, c]" "int sh \<le> d" "int sw \<le> d"
  shows "\<exists>img'. mode_square simg (Some d) =
            Inr (img', ((d - int sh) div 2, (d - int sw) div 2,
                        int sh + (d - int sh) div 2, int sw + (d - int sw) div 2),
                 [((d - int sh) div 2, d - int sh - (d - int sh) div 2),
                  ((d - int sw) div 2, d - int sw - (d - int sw) div 2), (0, 0)], None)
          \<and> shape img' = [nat d, nat d, c]"
proof -
  let ?t = "(d - int sh) div 2" and ?l = "(d - int sw) div 2"
  have nn: "0 \<le> ?t" "0 \<le> d - int sh - ?t" "0 \<le> ?l" "0 \<le> d - int sw - ?l"
    using assms(2,3) by auto
  from np_pad_3 [OF assms(1) nn] obtain a' where
    a': "np_pad simg [(?t, d - int sh - ?t), (?l, d - int sw - ?l), (0, 0)] = Inr a'"
    and sa': "shape a' = [nat (int sh + ?t + (d - int sh - ?t)), nat (int sw + ?l + (d - int sw - ?l)), c]"
    by blast
  from sa' have "shape a' = [nat d, nat d, c]" by simp
  with a' show ?thesis using assms(1)
    by (simp add: mode_square_def Let_def)
qed

subsection \<open>The steps of \<open>resize_image\<close>\<close>

lemma resize_image_steps:
  assumes "shape img = hn # wn # rest" "mode \<noteq> ''none''"
    "compute_scale (int hn) (int wn) min_dim max_dim min_scale mode = Inr s"
    "scale_image lib img (int hn) (int wn) s = Inr simg"
    "(if mode = ''square'' then mode_square simg max_dim
      else if mode = ''pad64'' then mode_pad64 simg min_dim
      else if mode = ''crop'' then mode_crop simg min_dim ry rx
      else Inl (Exception (''Mode '' @ mode @ '' not supported''))) = Inr (img', win, pad, cr)"
  shows "resize_image lib img min_dim max_dim min_scale mode ry rx =
           Inr \<lparr>r_image = astype lib img' (dtype img), r_window = win, r_scale = s,
                 r_padding = pad, r_crop = cr\<rparr>"
  using assms(1-4) by (simp add: resize_image_def Let_def assms(5))


subsection \<open>Pad64 mode\<close>

lemma mode_pad64_ok:
  assumes "shape simg = [sh, sw, c]" "d mod 64 = 0"
  shows "\<exists>img' H W. mode_pad64 simg (Some d) =
            Inr (img', ((H - int sh) div 2, (W - int sw) div 2,
                        int sh + (H - int sh) div 2, int sw + (W - int sw) div 2),
                 [((H - int sh) div 2, H - int sh - (H - int sh) div 2),
                  ((W - int sw) div 2, W - int sw - (W - int sw) div 2), (0, 0)], None)
          \<and> shape img' = [nat H, nat W, c]
          \<and> 64 dvd H \<and> int sh \<le> H \<and> H < int sh + 64
          \<and> 64 dvd W \<and> int sw \<le> W \<and> W < int sw + 64"
proof -
  define H where "H = (if int sh mod 64 > 0 then int sh - int sh mod 64 + 64 else int sh)"
  define W where "W = (if int sw mod 64 > 0 then int sw - int sw mod 64 + 64 else int sw)"
  have H: "64 dvd H" "int sh \<le> H" "H < int sh + 64"
    unfolding H_def by presburger+
  have W: "64 dvd W" "int sw \<le> W" "W < int sw + 64"
    unfolding W_def by presburger+
  let ?t = "(H - int sh) div 2" and ?l = "(W - int sw) div 2"
  have nn: "0 \<le> ?t" "0 \<le> H - int sh - ?t" "0 \<le> ?l" "0 \<le> W - int sw - ?l"
    using H(2) W(2) by auto
  from np_pad_3 [OF assms(1) nn] obtain a' where
    a': "np_pad simg [(?t, H - int sh - ?t), (?l, W - int sw - ?l), (0, 0)] = Inr a'"
    and sa': "shape a' = [nat (int sh + ?t + (H - int sh - ?t)), nat (int sw + ?l + (W - int sw - ?l)), c]"
    by blast
  from sa' have sa: "shape a' = [nat H, nat W, c]" by simp
  have tb: "(if int sh mod 64 > 0
                        then (let max_h = int sh - (int sh mod 64) + 64;
                                  top_pad = (max_h - int sh) div 2
                              in (top_pad, max_h - int sh - top_pad))
                        else (0, 0)) = (?t, H - int sh - ?t)"
    by (simp add: H_def Let_def)
  have lr: "(if int sw mod 64 > 0
                        then (let max_w = int sw - (int sw mod 64) + 64;
                                  left_pad = (max_w - int sw) div 2
                              in (left_pad, max_w - int sw - left_pad))
                        else (0, 0)) = (?l, W - int sw - ?l)"
    by (simp add: W_def Let_def)
  have "mode_pad64 simg (Some d) =
            Inr (a', (?t, ?l, int sh + ?t, int sw + ?l),
                 [(?t, H - int sh - ?t), (?l, W - int sw - ?l), (0, 0)], None)"
    unfolding mode_pad64_def using assms by (simp add: tb lr a' Let_def del: One_nat_def)
  with sa H W show ?thesis by blast
qed

subsection \<open>Crop mode\<close>

lemma randint_range:
  assumes "a \<le> b"
  shows "\<exists>v. randint a b r = Inr v \<and> a \<le> v \<and> v \<le> b"
proof -
  have "0 < b - a + 1" using assms by simp
  then have "0 \<le> int r mod (b - a + 1)" "int r mod (b - a + 1) < b - a + 1"
    by (rule pos_mod_sign, rule pos_mod_bound)
  then show ?thesis using assms by (simp add: randint_def)
qed

lemma randint_onto:
  assumes "a \<le> v" "v \<le> b"
  shows "randint a b (nat (v - a)) = Inr v"
  using assms by (simp add: randint_def)

lemma slice_indices_inside:
  assumes "0 \<le> y" "0 \<le> d" "y + d \<le> n"
  shows "slice_indices n y (y + d) = (nat y, nat d)"
  using assms by (simp add: slice_indices_def)

lemma mode_crop_ok:
  assumes "shape simg = sh # sw # rest" "0 \<le> d" "d \<le> int sh" "d \<le> int sw"
  shows "\<exists>img' y x. mode_crop simg (Some d) ry rx =
            Inr (img', (0, 0, d, d), [(0, 0), (0, 0), (0, 0)], Some (y, x, d, d))
          \<and> 0 \<le> y \<and> y \<le> int sh - d \<and> 0 \<le> x \<and> x \<le> int sw - d
          \<and> shape img' = nat d # nat d # rest"
proof -
  from randint_range [of 0 "int sh - d" ry] assms(3) obtain y where
    y: "randint 0 (int sh - d) ry = Inr y" "0 \<le> y" "y \<le> int sh - d" by auto
  from randint_range [of 0 "int sw - d" rx] assms(4) obtain x where
    x: "randint 0 (int sw - d) rx = Inr x" "0 \<le> x" "x \<le> int sw - d" by auto
  have sy: "slice_indices (int sh) y (y + d) = (nat y, nat d)"
    using y assms(2) by (intro slice_indices_inside) auto
  have sx: "slice_indices (int sw) x (x + d) = (nat x, nat d)"
    using x assms(2) by (intro slice_indices_inside) auto
  obtain img' where sl: "slice2 simg y (y + d) x (x + d) = Inr img'"
    and s': "shape img' = nat d # nat d # rest"
    using assms(1) by (simp add: slice2_def sy sx)
  have "mode_crop simg (Some d) ry rx =
          Inr (img', (0, 0, d, d), [(0, 0), (0, 0), (0, 0)], Some (y, x, d, d))"
    using assms(1) y(1) x(1) sl by (simp add: mode_crop_def)
  with y x s' show ?thesis by blast
qed

subsection \<open>Inversion of square mode\<close>

lemma mode_square_Inr:
  assumes "mode_square simg max_dim = Inr q"
  shows "\<exists>M sh sw c. max_dim = Some M \<and> shape simg = [sh, sw, c] \<and> int sh \<le> M \<and> int sw \<le> M"
proof -
  from assms obtain hn wn rest where sh: "shape simg = hn # wn # rest"
    by (cases "shape simg"; simp add: mode_square_def split: list.splits)
  from assms sh obtain M where M: "max_dim = Some M"
    by (cases max_dim) (simp_all add: mode_square_def)
  let ?t = "(M - int hn) div 2" and ?l = "(M - int wn) div 2"
  from assms sh M obtain a' where
    "np_pad simg [(?t, M - int hn - ?t), (?l, M - int wn - ?l), (0, 0)] = Inr a'"
    by (cases "np_pad simg [(?t, M - int hn - ?t), (?l, M - int wn - ?l), (0, 0)]")
       (simp_all add: mode_square_def Let_def)
  from np_pad_3_Inr [OF this] obtain h w c where
    "0 \<le> ?t" "0 \<le> ?l" "shape simg = [h, w, c]" by blast
  with sh have "int hn \<le> M" "int wn \<le> M" "shape simg = [hn, wn, c]" by auto
  with M show ?thesis by blast
qed

subsection \<open>Zooming a mask\<close>

lemma ndimage_zoom_2:
  assumes "shape msk = [hn, wn]" "0 \<le> py_round (of_nat hn * s)" "0 \<le> py_round (of_nat wn * s)"
  shows "\<exists>z. ndimage_zoom lib msk [s, s] = Inr z \<and>
            shape z = [nat (py_round (of_nat hn * s)), nat (py_round (of_nat wn * s))]"
  using assms by (simp add: ndimage_zoom_def Let_def not_le)

subsection \<open>Inversion of pad64 and crop mode, and the mask side\<close>


lemma slice2_shape:
  assumes "shape a = h # w # rest"
  shows "\<exists>a'. slice2 a y0 y1 x0 x1 = Inr a' \<and>
           shape a' = snd (slice_indices (int h) y0 y1) # snd (slice_indices (int w) x0 x1) # rest"
  using assms by (simp add: slice2_def split: prod.splits)




subsection \<open>The label loop\<close>

lemma broadcast_shapes_same2: "broadcast_shapes [a, b] [a, b] = Some [a, b]"
  by (simp add: broadcast_shapes_def)

lemma broadcast_index_2:
  assumes "i < a" "j < b"
  shows "broadcast_index [a, b] [i, j] = [i, j]"
  using assms by (auto simp add: broadcast_index_def)

text \<open>One step of the loop, at a pixel inside the image.\<close>

lemma np_maximum_label:
  assumes "shape acc = [rows, cols]" "img_height ann = rows" "img_width ann = cols"
    "i < rows" "j < cols" "0 \<le> k" "k \<le> 255"
  shows "\<exists>m. bindE (mul_scalar lib (annToMask ann) k) (np_maximum lib acc) = Inr m \<and>
           shape m = [rows, cols] \<and>
           data m [i, j] = max (data acc [i, j]) (if segmentation ann i j then of_int k else 0)"
  using assms
  by (simp add: np_maximum_def mul_scalar_def annToMask_def broadcast_shapes_same2
      broadcast_index_2)

lemma label_loop_pixel:
  assumes "shape acc = [rows, cols]"
    "\<forall>ann \<in> set anns. img_height ann = rows \<and> img_width ann = cols"
    "\<forall>ann \<in> set anns. 0 \<le> label_value test step ann \<and> label_value test step ann \<le> 255"
    "i < rows" "j < cols"
  shows "\<exists>m. label_loop lib test step acc anns = Inr m \<and> shape m = [rows, cols] \<and>
           data m [i, j] = pixel_fold test step i j anns (data acc [i, j])"
  using assms(1,2,3)
proof (induction anns arbitrary: acc)
  case Nil
  then show ?case by (simp add: pixel_fold_def)
next
  case (Cons ann anns)
  from Cons.prems have hw: "img_height ann = rows" "img_width ann = cols" by simp_all
  from Cons.prems have lv: "0 \<le> label_value test step ann" "label_value test step ann \<le> 255"
    by simp_all
  from np_maximum_label [OF Cons.prems(1) hw assms(4,5) lv, of lib]
  obtain m1 where m1: "bindE (mul_scalar lib (annToMask ann) (label_value test step ann))
                         (np_maximum lib acc) = Inr m1"
    and s1: "shape m1 = [rows, cols]"
    and d1: "data m1 [i, j] = max (data acc [i, j])
               (if segmentation ann i j then of_int (label_value test step ann) else 0)"
    by blast
  from Cons.prems have rest: "\<forall>ann \<in> set anns. img_height ann = rows \<and> img_width ann = cols"
    "\<forall>ann \<in> set anns. 0 \<le> label_value test step ann \<and> label_value test step ann \<le> 255"
    by simp_all
  from Cons.IH [OF s1 rest] obtain m where
    m: "label_loop lib test step m1 anns = Inr m" "shape m = [rows, cols]"
       "data m [i, j] = pixel_fold test step i j anns (data m1 [i, j])"
    by blast
  have step: "(if test
            then bindE (mul_scalar lib (annToMask ann) (category_id ann)) (np_maximum lib acc)
            else bindE (mul_scalar lib (annToMask ann) (step + 1)) (np_maximum lib acc)) = Inr m1"
    using m1 by (cases test) (simp_all add: label_value_def)
  show ?case
    using m d1 by (simp add: step pixel_fold_def)
qed

subsection \<open>The label of a pixel\<close>

lemma pixel_fold_covering:
  assumes "0 \<le> v"
  shows "pixel_fold test step i j anns v =
           foldl (\<lambda>v ann. max v (of_int (label_value test step ann))) v (covering anns i j)"
  using assms
proof (induction anns arbitrary: v)
  case Nil
  then show ?case by (simp add: pixel_fold_def covering_def)
next
  case (Cons ann anns)
  have step: "pixel_fold test step i j (ann # anns) v =
     pixel_fold test step i j anns
       (max v (if segmentation ann i j then of_int (label_value test step ann) else 0))"
    by (simp add: pixel_fold_def)
  show ?case
  proof (cases "segmentation ann i j")
    case True
    have "0 \<le> max v (of_int (label_value test step ann))" using Cons.prems by simp
    from Cons.IH [OF this] True show ?thesis
      by (simp add: step covering_def)
  next
    case False
    have "max v 0 = v" using Cons.prems by simp
    with Cons.IH [OF Cons.prems] False show ?thesis
      by (simp add: step covering_def)
  qed
qed

lemma fold_max_of_int:
  "(of_int (fold (\<lambda>ann m. max (f ann) m) as x) :: rat) =
     foldl (\<lambda>v ann. max v (of_int (f ann))) (of_int x) as"
proof (induction as arbitrary: x)
  case Nil
  then show ?case by simp
next
  case (Cons a as)
  have "(of_int (max (f a) x) :: rat) = max (of_int x) (of_int (f a))"
    by (simp add: max_def)
  with Cons.IH [of "max (f a) x"] show ?case by simp
qed

lemma spec_label_Max:
  assumes "covering anns i j \<noteq> []"
  shows "spec_label test step anns i j = Max (label_value test step ` set (covering anns i j))"
proof -
  from assms obtain a as where c: "covering anns i j = a # as" by (cases "covering anns i j") auto
  have "fold (\<lambda>ann m. max (label_value test step ann) m) as x =
        fold max (map (label_value test step) as) x" for x
    by (simp add: fold_map comp_def)
  then have "spec_label test step anns i j = fold max (map (label_value test step) as) (label_value test step a)"
    by (simp add: spec_label_def c)
  also have "\<dots> = Max (set (label_value test step a # map (label_value test step) as))"
    by (rule Max.set_eq_fold [symmetric])
  finally show ?thesis by (simp add: c)
qed

lemma pixel_fold_spec:
  assumes "\<forall>ann \<in> set anns. 0 \<le> label_value test step ann"
  shows "pixel_fold test step i j anns 0 = of_int (spec_label test step anns i j)"
proof (cases "covering anns i j")
  case Nil
  then show ?thesis
    using pixel_fold_covering [of 0 test step i j anns] by (simp add: spec_label_def)
next
  case (Cons a as)
  then have "a \<in> set (covering anns i j)" by simp
  then have "a \<in> set anns" by (simp add: covering_def)
  with assms have "0 \<le> label_value test step a" by blast
  then have m: "max 0 (of_int (label_value test step a)) = (of_int (label_value test step a) :: rat)"
    by simp
  show ?thesis
    using pixel_fold_covering [of 0 test step i j anns]
    by (simp add: Cons spec_label_def fold_max_of_int m)
qed

subsection \<open>Failures and results of the single modes\<close>

lemma np_pad_negative:
  assumes "length pw = length (shape a)" "list_ex (\<lambda>p. fst p < 0 \<or> snd p < 0) pw"
  shows "np_pad a pw = Inl ValueError"
  using assms by (simp add: np_pad_def Let_def)

lemma mode_square_too_small:
  assumes "shape simg = [sh, sw, c]" "M < int sh \<or> M < int sw"
  shows "mode_square simg (Some M) = Inl ValueError"
proof -
  let ?pw = "[((M - int sh) div 2, M - int sh - (M - int sh) div 2),
               ((M - int sw) div 2, M - int sw - (M - int sw) div 2), (0::int, 0::int)]"
  have "(M - int sh) div 2 < 0 \<or> (M - int sw) div 2 < 0" using assms(2) by auto
  then have "list_ex (\<lambda>p. fst p < 0 \<or> snd p < 0) ?pw" by auto
  moreover have "length ?pw = length (shape simg)" using assms(1) by simp
  ultimately have "np_pad simg ?pw = Inl ValueError" by (rule np_pad_negative [rotated])
  then show ?thesis using assms(1) by (simp add: mode_square_def Let_def)
qed

lemma mode_square_no_max_dim:
  assumes "shape simg = sh # sw # rest"
  shows "mode_square simg None = Inl TypeError"
  using assms by (simp add: mode_square_def)

lemma mode_pad64_no_min_dim:
  assumes "shape simg = sh # sw # rest"
  shows "mode_pad64 simg None = Inl TypeError"
  using assms by (simp add: mode_pad64_def)

lemma mode_pad64_not_multiple:
  assumes "shape simg = sh # sw # rest" "d mod 64 \<noteq> 0"
  shows "mode_pad64 simg (Some d) = Inl AssertionError"
  using assms by (simp add: mode_pad64_def)

lemma mode_crop_no_min_dim:
  assumes "shape simg = sh # sw # rest"
  shows "mode_crop simg None ry rx = Inl TypeError"
  using assms by (simp add: mode_crop_def)

lemma mode_crop_returns:
  assumes "shape simg = sh # sw # rest" "d \<le> int sh" "d \<le> int sw"
  shows "\<exists>q. mode_crop simg (Some d) ry rx = Inr q"
proof -
  from randint_range [of 0 "int sh - d" ry] assms(2) obtain y where
    y: "randint 0 (int sh - d) ry = Inr y" by auto
  from randint_range [of 0 "int sw - d" rx] assms(3) obtain x where
    x: "randint 0 (int sw - d) rx = Inr x" by auto
  from slice2_shape [OF assms(1), of y "y + d" x "x + d"] obtain img' where
    "slice2 simg y (y + d) x (x + d) = Inr img'" by blast
  with y x assms(1) show ?thesis by (simp add: mode_crop_def)
qed

subsection \<open>The scale under rounding\<close>

lemma binary64_zero: "binary64 0 = 0"
  by (simp add: binary64_def)

text \<open>
  \<open>ilog2\<close> is the binary logarithm rounded down; so in \<open>binary64\<close> the scaled number
  has 53 binary digits, and the result is within half a unit of the last digit.
\<close>

lemma bit_length_bounds:
  assumes "0 < n"
  shows "2 ^ (bit_length n - 1) \<le> n \<and> n < 2 ^ bit_length n"
  using assms
proof (induction n rule: bit_length.induct)
  case (1 n)
  show ?case
  proof (cases "n div 2 = 0")
    case True
    with 1(2) have "n = 1" by (simp add: div_eq_0_iff) 
    then show ?thesis by (simp add: bit_length.simps [of "Suc 0"] bit_length.simps [of 0])
  next
    case False
    then have pos: "0 < n div 2" by simp
    from 1(1) [OF _ pos] 1(2) have ih: "2 ^ (bit_length (n div 2) - 1) \<le> n div 2"
      "n div 2 < 2 ^ bit_length (n div 2)" by simp_all
    have bl: "bit_length n = Suc (bit_length (n div 2))" using 1(2) by (simp add: bit_length.simps [of n])
    have b1: "0 < bit_length (n div 2)" using pos by (simp add: bit_length.simps [of "n div 2"])
    then have e: "(2::nat) ^ bit_length (n div 2) = 2 * 2 ^ (bit_length (n div 2) - 1)"
      by (cases "bit_length (n div 2)") simp_all
    have "2 * (n div 2) \<le> n" by simp
    with ih(1) have lo: "2 ^ bit_length (n div 2) \<le> n" unfolding e by linarith
    have "n < 2 * (n div 2) + 2" by presburger
    with ih(2) have hi: "n < 2 * 2 ^ bit_length (n div 2)" by linarith
    from lo hi show ?thesis by (simp add: bl)
  qed
qed

lemma pow2_add: "pow2 (a + b) = pow2 a * pow2 b"
proof -
  have "pow2 e = 2 powi e" for e
    by (simp add: pow2_def power_int_def power_one_over)
  then show ?thesis by (simp add: power_int_add)
qed

lemma pow2_pos: "0 < pow2 e"
  by (simp add: pow2_def)

lemma ilog2_bounds:
  assumes "0 < x"
  shows "pow2 (ilog2 x) \<le> x \<and> x < pow2 (ilog2 x + 1)"
proof (cases "1 \<le> x")
  case True
  define n where "n = nat \<lfloor>x\<rfloor>"
  have n1: "0 < n" using True by (simp add: n_def)
  have nx: "of_nat n \<le> x" "x < of_nat n + 1"
    using True unfolding n_def by (simp_all add: of_nat_nat) linarith+
  from bit_length_bounds [OF n1] have b: "2 ^ (bit_length n - 1) \<le> n" "n < 2 ^ bit_length n"
    by simp_all
  have bp: "0 < bit_length n" using n1 by (simp add: bit_length.simps [of n])
  have il: "ilog2 x = int (bit_length n) - 1" using True by (simp add: ilog2_def n_def)
  have p1: "pow2 (int (bit_length n) - 1) = 2 ^ (bit_length n - 1)"
    using bp by (simp add: pow2_def nat_diff_distrib)
  have p2: "pow2 (int (bit_length n) - 1 + 1) = 2 ^ bit_length n"
    by (simp add: pow2_def)
  have "(2::rat) ^ (bit_length n - 1) \<le> of_nat n"
    using b(1) by (metis of_nat_le_iff of_nat_numeral of_nat_power)
  with nx(1) have lo: "(2::rat) ^ (bit_length n - 1) \<le> x" by linarith
  have "n + 1 \<le> 2 ^ bit_length n" using b(2) by simp
  then have "(of_nat (n + 1) :: rat) \<le> of_nat (2 ^ bit_length n)"
    by (simp only: of_nat_le_iff)
  then have "(of_nat n :: rat) + 1 \<le> 2 ^ bit_length n" by simp
  with nx(2) have hi: "x < 2 ^ bit_length n" by linarith
  from lo hi show ?thesis unfolding il p1 p2 by simp
next
  case False
  then have x1: "x < 1" by simp
  define m where "m = nat (\<lceil>1 / x\<rceil> - 1)"
  have inv: "1 < 1 / x" using assms x1 by (simp add: field_simps)
  then have c2: "2 \<le> \<lceil>1 / x\<rceil>" by linarith
  then have m1: "0 < m" by (simp add: m_def)
  have mx: "of_nat m < 1 / x" "1 / x \<le> of_nat m + 1"
    using c2 unfolding m_def by (simp_all add: of_nat_nat) linarith+
  from bit_length_bounds [OF m1] have b: "2 ^ (bit_length m - 1) \<le> m" "m < 2 ^ bit_length m"
    by simp_all
  have bp: "0 < bit_length m" using m1 by (simp add: bit_length.simps [of m])
  have il: "ilog2 x = - int (bit_length m)" using False by (simp add: ilog2_def m_def)
  have p1: "pow2 (- int (bit_length m)) = 1 / 2 ^ bit_length m"
    using bp by (simp add: pow2_def)
  have p2: "pow2 (- int (bit_length m) + 1) = 1 / 2 ^ (bit_length m - 1)"
    using bp by (cases "bit_length m") (simp_all add: pow2_def)
  have "m + 1 \<le> 2 ^ bit_length m" using b(2) by simp
  then have "(of_nat (m + 1) :: rat) \<le> of_nat (2 ^ bit_length m)"
    by (simp only: of_nat_le_iff)
  then have "(of_nat m :: rat) + 1 \<le> 2 ^ bit_length m" by simp
  with mx(2) have "1 / x \<le> 2 ^ bit_length m" by linarith
  then have lo: "1 / 2 ^ bit_length m \<le> x"
    using assms by (simp add: field_simps)
  have "(2::rat) ^ (bit_length m - 1) \<le> of_nat m"
    using b(1) by (metis of_nat_le_iff of_nat_numeral of_nat_power)
  with mx(1) have "(2::rat) ^ (bit_length m - 1) < 1 / x" by linarith
  then have hi: "x < 1 / 2 ^ (bit_length m - 1)"
    using assms by (simp add: field_simps)
  from lo hi show ?thesis unfolding il p1 p2 by simp
qed

text \<open>The significand of a non-zero number has 53 binary digits.\<close>

lemma binary64_significand:
  assumes "x \<noteq> 0"
  shows "2 ^ 52 \<le> \<bar>x\<bar> / pow2 (ilog2 \<bar>x\<bar> - 52) \<and> \<bar>x\<bar> / pow2 (ilog2 \<bar>x\<bar> - 52) < 2 ^ 53"
proof -
  define k where "k = ilog2 \<bar>x\<bar>"
  have ax: "0 < \<bar>x\<bar>" using assms by simp
  from ilog2_bounds [OF ax] have b: "pow2 k \<le> \<bar>x\<bar>" "\<bar>x\<bar> < pow2 (k + 1)"
    unfolding k_def by simp_all
  have e1: "pow2 k = pow2 (k - 52) * 2 ^ 52"
    using pow2_add [of "k - 52" 52] by (simp add: pow2_def [of 52])
  have e2: "pow2 (k + 1) = pow2 (k - 52) * 2 ^ 53"
    using pow2_add [of "k - 52" 53] by (simp add: pow2_def [of 53] add.commute)
  have p: "0 < pow2 (k - 52)" by (rule pow2_pos)
  from b(1) have "2 ^ 52 \<le> \<bar>x\<bar> / pow2 (k - 52)"
    unfolding e1 using p by (simp add: field_simps)
  moreover from b(2) have "\<bar>x\<bar> / pow2 (k - 52) < 2 ^ 53"
    unfolding e2 using p by (simp add: field_simps)
  ultimately show ?thesis unfolding k_def by simp
qed

lemma py_round_nearest: "\<bar>of_int (py_round y) - y\<bar> \<le> 1 / 2"
proof -
  define r where "r = y - of_int \<lfloor>y\<rfloor>"
  have r: "0 \<le> r" "r < 1" unfolding r_def by linarith+
  have y: "y = of_int \<lfloor>y\<rfloor> + r" unfolding r_def by simp
  consider "r < 1 / 2" | "1 / 2 < r" | "r = 1 / 2" by linarith
  then show ?thesis
  proof cases
    case 1
    then have "py_round y = \<lfloor>y\<rfloor>" by (simp add: py_round_def Let_def r_def)
    then show ?thesis using r 1 unfolding r_def by simp
  next
    case 2
    then have "py_round y = \<lfloor>y\<rfloor> + 1" by (simp add: py_round_def Let_def r_def)
    then show ?thesis using r 2 unfolding r_def by simp
  next
    case 3
    then have "py_round y = \<lfloor>y\<rfloor> \<or> py_round y = \<lfloor>y\<rfloor> + 1"
      by (simp add: py_round_def Let_def r_def)
    then show ?thesis using 3 unfolding r_def by auto
  qed
qed

text \<open>\<open>binary64 x\<close> is an integer multiple of the unit of its binade, at most half a unit away.\<close>

lemma binary64_nearest:
  assumes "x \<noteq> 0"
  shows "\<bar>binary64 x - x\<bar> \<le> pow2 (ilog2 \<bar>x\<bar> - 52) / 2"
proof -
  define u where "u = pow2 (ilog2 \<bar>x\<bar> - 52)"
  have u: "0 < u" unfolding u_def by (rule pow2_pos)
  have "binary64 x - x = (of_int (py_round (x / u)) - x / u) * u"
    using assms u by (simp add: binary64_def Let_def u_def [symmetric] field_simps)
  then have "\<bar>binary64 x - x\<bar> = \<bar>of_int (py_round (x / u)) - x / u\<bar> * u"
    using u by (simp add: abs_mult)
  also have "\<dots> \<le> (1 / 2) * u"
    using py_round_nearest [of "x / u"] u by (intro mult_right_mono) simp_all
  finally show ?thesis by (simp add: u_def)
qed

text \<open>Some values of \<open>binary64\<close>, as the interpreter prints them with \<open>Fraction\<close>.\<close>

lemma binary64_examples:
  "binary64 (1 / 10) = 3602879701896397 / 36028797018963968"
  "binary64 (- 1 / 3) = - (6004799503160661 / 18014398509481984)"
  "binary64 (7 / 6) = 5254199565265579 / 4503599627370496"
  "binary64 (393 * (5254199565265579 / 4503599627370496)) = 8066017301364737 / 17592186044416"
  "binary64 1024 = 1024"
  "binary64 (1 / 2) = 1 / 2"
  by code_simp+

lemma int_times_exact: "int_times (\<lambda>x. x) n s = of_int n * s"
  by (simp add: int_times_def)

lemma compute_scale_fl_exact:
  "compute_scale_fl (\<lambda>x. x) h w min_dim max_dim min_scale mode =
     compute_scale h w min_dim max_dim min_scale mode"
  unfolding compute_scale_fl_def compute_scale_def float_div_def int_times_exact ..

lemma scale_image_fl_exact:
  "scale_image_fl (\<lambda>x. x) lib img h w s = scale_image lib img h w s"
  unfolding scale_image_fl_def scale_image_def int_times_exact ..

lemma resize_image_fl_exact:
  "resize_image_fl (\<lambda>x. x) lib img min_dim max_dim min_scale mode ry rx =
     resize_image lib img min_dim max_dim min_scale mode ry rx"
  unfolding resize_image_fl_def resize_image_def compute_scale_fl_exact scale_image_fl_exact ..

lemma resize_image_fl_Inr_steps:
  assumes "resize_image_fl rnd lib img min_dim max_dim min_scale mode ry rx = Inr r"
    "mode \<noteq> ''none''"
  shows "\<exists>hn wn rest simg img'.
           shape img = hn # wn # rest \<and>
           compute_scale_fl rnd (int hn) (int wn) min_dim max_dim min_scale mode = Inr (r_scale r) \<and>
           scale_image_fl rnd lib img (int hn) (int wn) (r_scale r) = Inr simg \<and>
           (if mode = ''square'' then mode_square simg max_dim
            else if mode = ''pad64'' then mode_pad64 simg min_dim
            else if mode = ''crop'' then mode_crop simg min_dim ry rx
            else Inl (Exception (''Mode '' @ mode @ '' not supported'')))
             = Inr (img', r_window r, r_padding r, r_crop r) \<and>
           r_image r = astype lib img' (dtype img)"
proof -
  from assms obtain hn wn rest where sh: "shape img = hn # wn # rest"
    by (cases "shape img"; simp add: resize_image_fl_def Let_def split: list.splits)
  from assms sh obtain s where
    s: "compute_scale_fl rnd (int hn) (int wn) min_dim max_dim min_scale mode = Inr s"
    by (cases "compute_scale_fl rnd (int hn) (int wn) min_dim max_dim min_scale mode")
       (simp_all add: resize_image_fl_def Let_def)
  from assms sh s obtain simg where si: "scale_image_fl rnd lib img (int hn) (int wn) s = Inr simg"
    by (cases "scale_image_fl rnd lib img (int hn) (int wn) s")
       (simp_all add: resize_image_fl_def Let_def)
  let ?fin = "(if mode = ''square'' then mode_square simg max_dim
            else if mode = ''pad64'' then mode_pad64 simg min_dim
            else if mode = ''crop'' then mode_crop simg min_dim ry rx
            else Inl (Exception (''Mode '' @ mode @ '' not supported'')))"
  from assms sh s si have eq: "bindE ?fin (\<lambda>(img', window, padding, crop).
            Inr \<lparr>r_image = astype lib img' (dtype img), r_window = window, r_scale = s,
                       r_padding = padding, r_crop = crop\<rparr>) = Inr r"
    by (simp add: resize_image_fl_def Let_def)
  then obtain q where q: "?fin = Inr q" by (cases ?fin) simp_all
  obtain img' win pad cr where qq: "q = (img', win, pad, cr)" by (cases q) auto
  from eq q qq have "r = \<lparr>r_image = astype lib img' (dtype img), r_window = win, r_scale = s,
                       r_padding = pad, r_crop = cr\<rparr>" by simp
  with sh s si q qq show ?thesis by auto
qed

lemma scale_image_fl_Inr:
  assumes "scale_image_fl rnd lib img (int hn) (int wn) s = Inr simg" "shape img = hn # wn # rest"
  shows "shape simg = nat (py_round (int_times rnd (int hn) s))
                        # nat (py_round (int_times rnd (int wn) s)) # rest"
  using assms
    resize_Inr [of lib img "py_round (int_times rnd (int hn) s)"
                  "py_round (int_times rnd (int wn) s)" simg]
  by (auto simp add: scale_image_fl_def int_times_def split: if_splits)

lemma compute_scale_fl_no_cap:
  assumes "mode \<noteq> ''square''"
  shows "compute_scale_fl rnd h w min_dim max_dim min_scale mode =
         compute_scale_fl rnd h w min_dim None min_scale mode"
  using assms by (simp add: compute_scale_fl_def split: option.splits)

lemma resize_image_fl_steps:
  assumes "shape img = hn # wn # rest" "mode \<noteq> ''none''"
    "compute_scale_fl rnd (int hn) (int wn) min_dim max_dim min_scale mode = Inr s"
    "scale_image_fl rnd lib img (int hn) (int wn) s = Inr simg"
    "(if mode = ''square'' then mode_square simg max_dim
      else if mode = ''pad64'' then mode_pad64 simg min_dim
      else if mode = ''crop'' then mode_crop simg min_dim ry rx
      else Inl (Exception (''Mode '' @ mode @ '' not supported''))) = Inr (img', win, pad, cr)"
  shows "resize_image_fl rnd lib img min_dim max_dim min_scale mode ry rx =
           Inr \<lparr>r_image = astype lib img' (dtype img), r_window = win, r_scale = s,
                 r_padding = pad, r_crop = cr\<rparr>"
  using assms(1-4) by (simp add: resize_image_fl_def Let_def assms(5))

lemma resize_image_fl_steps_Inl:
  assumes "shape img = hn # wn # rest" "mode \<noteq> ''none''"
    "compute_scale_fl rnd (int hn) (int wn) min_dim max_dim min_scale mode = Inr s"
    "scale_image_fl rnd lib img (int hn) (int wn) s = Inr simg"
    "(if mode = ''square'' then mode_square simg max_dim
      else if mode = ''pad64'' then mode_pad64 simg min_dim
      else if mode = ''crop'' then mode_crop simg min_dim ry rx
      else Inl (Exception (''Mode '' @ mode @ '' not supported''))) = Inl e"
  shows "resize_image_fl rnd lib img min_dim max_dim min_scale mode ry rx = Inl e"
  using assms(1-4) by (simp add: resize_image_fl_def Let_def assms(5))

lemma scale_image_fl_ok:
  assumes "shape img = hn # wn # rest" "length rest \<le> 1" "s \<noteq> 1"
    "0 \<le> py_round (int_times rnd (int hn) s)" "0 \<le> py_round (int_times rnd (int wn) s)"
  shows "\<exists>simg. scale_image_fl rnd lib img (int hn) (int wn) s = Inr simg \<and>
            shape simg = nat (py_round (int_times rnd (int hn) s))
                           # nat (py_round (int_times rnd (int wn) s)) # rest"
  using resize_ok [OF assms(4) assms(5) assms(1) assms(2), of lib] assms(3)
  by (simp add: scale_image_fl_def)

text \<open>The scale before the cap, in the words of the specification.\<close>

lemma compute_scale_fl_Inr:
  fixes rnd :: "rat \<Rightarrow> rat"
  assumes "compute_scale_fl rnd h w (Some d) max_dim min_scale mode = Inr s" "rnd 0 = 0"
  defines "s0 \<equiv> max 1 (float_div rnd d (min h w))"
  defines "s1 \<equiv> (case min_scale of None \<Rightarrow> s0 | Some m \<Rightarrow> if s0 < m then m else s0)"
  shows "(case max_dim of
            None \<Rightarrow> Inr s1
          | Some M \<Rightarrow>
              if M \<noteq> 0 \<and> mode = ''square''
              then (if py_round (int_times rnd (max h w) s1) > M
                    then (if max h w = 0 then Inl ZeroDivisionError
                          else Inr (float_div rnd M (max h w)))
                    else Inr s1)
              else Inr s1) = (Inr s :: error + rat)"
proof -
  from assms(1) obtain b where
    b: "(if d \<noteq> 0 then (if min h w = 0 then Inl ZeroDivisionError
                          else Inr (max 1 (float_div rnd d (min h w))))
         else (Inr 1 :: error + rat)) = Inr b"
    and rest: "(let scale = (case min_scale of
                         None \<Rightarrow> b
                       | Some m \<Rightarrow> if m \<noteq> 0 \<and> b < m then m else b)
          in case max_dim of
               None \<Rightarrow> Inr scale
             | Some d \<Rightarrow>
                 if d \<noteq> 0 \<and> mode = ''square''
                 then (let image_max = max h w in
                       if py_round (int_times rnd image_max scale) > d
                       then (if image_max = 0 then Inl ZeroDivisionError
                             else Inr (float_div rnd d image_max))
                       else Inr scale)
                 else Inr scale) = (Inr s :: error + rat)"
    unfolding compute_scale_fl_def bindE_eq_Inr option.case by blast
  have b0: "b = s0"
  proof (cases "d = 0")
    case True
    with b have "b = 1" by simp
    moreover have "float_div rnd d (min h w) = 0" using True assms(2) by (simp add: float_div_def)
    ultimately show ?thesis by (simp add: s0_def)
  next
    case False
    with b show ?thesis by (simp add: s0_def split: if_splits)
  qed
  have ge: "1 \<le> s0" by (simp add: s0_def)
  have b1: "(case min_scale of None \<Rightarrow> b | Some m \<Rightarrow> if m \<noteq> 0 \<and> b < m then m else b) = s1"
    unfolding b0 s1_def using ge by (cases min_scale) auto
  from rest show ?thesis unfolding b1 Let_def .
qed

subsection \<open>A crop that does not fit\<close>

lemma mode_crop_too_large:
  assumes "shape simg = sh # sw # rest" "int sh < d \<or> int sw < d"
  shows "mode_crop simg (Some d) ry rx = Inl ValueError"
proof (cases "int sh < d")
  case True
  then show ?thesis using assms(1) by (simp add: mode_crop_def randint_def)
next
  case False
  with assms(2) have w: "int sw < d" by simp
  from False have "d \<le> int sh" by simp
  from randint_range [of 0 "int sh - d" ry] this obtain y where
    "randint 0 (int sh - d) ry = Inr y" by auto
  then show ?thesis using assms(1) w by (simp add: mode_crop_def randint_def)
qed

subsection \<open>Identity mode\<close>

text \<open>
  C4. For every image (an array with at least a height and a width axis), \<open>resize_image\<close>
  in mode \<open>none\<close> returns the image itself, the window \<open>(0, 0, h, w)\<close>, scale 1, the
  all-zero padding, and no crop, whatever the other arguments are.
\<close>

theorem none_mode_identity:
  assumes "shape img = h # w # rest"
  shows "resize_image lib img min_dim max_dim min_scale ''none'' ry rx =
           Inr \<lparr>r_image = img, r_window = (0, 0, int h, int w), r_scale = 1,
                 r_padding = [(0, 0), (0, 0), (0, 0)], r_crop = None\<rparr>"
  using assms by (simp add: resize_image_def)

theorem none_mode_identity_witness:
  "resize_image lib0 img0 (Some 1024) (Some 1024) (Some 0) ''none'' 0 0 =
     Inr \<lparr>r_image = img0, r_window = (0, 0, 600, 800), r_scale = 1,
           r_padding = [(0, 0), (0, 0), (0, 0)], r_crop = None\<rparr>"
  using none_mode_identity [of img0 600 800 "[3]" lib0 "Some 1024" "Some 1024" "Some 0" 0 0]
  by (simp add: img0_def)

subsection \<open>Element type\<close>

text \<open>
  C9. Whenever \<open>resize_image\<close> returns, in any mode, the returned image has the element
  type of the input image, whatever element type the interpolation of the library
  produced in between.
\<close>

theorem resize_image_dtype:
  assumes "resize_image lib img min_dim max_dim min_scale mode ry rx = Inr r"
  shows "dtype (r_image r) = dtype img"
  using assms
  by (auto simp add: resize_image_def Let_def bindE_eq_Inr astype_def
      split: list.splits if_splits prod.splits)

lemma square_example_returns:
  "\<exists>r. resize_image lib0 img0 (Some 1024) (Some 1024) (Some 0) ''square'' 0 0 = Inr r"
  by (simp add: resize_image_def img0_def lib0_def compute_scale_def scale_image_def resize_def
      skimage_transform_resize_def mode_square_def np_pad_def py_round_def Let_def)

theorem resize_image_dtype_witness:
  "\<exists>r. resize_image lib0 img0 (Some 1024) (Some 1024) (Some 0) ''square'' 0 0 = Inr r
       \<and> dtype (r_image r) = UInt8"
proof -
  obtain r where r: "resize_image lib0 img0 (Some 1024) (Some 1024) (Some 0) ''square'' 0 0 = Inr r"
    using square_example_returns by blast
  from resize_image_dtype [OF r] have "dtype (r_image r) = UInt8"
    by (simp add: img0_def)
  with r show ?thesis by blast
qed

subsection \<open>The square-mode example\<close>

text \<open>
  C2. For an image of height 600 and width 800 (with a channel axis), \<open>min_dim = 1024\<close>,
  \<open>max_dim = 1024\<close>, \<open>min_scale = 0\<close> and mode \<open>square\<close>, \<open>resize_image\<close> returns the
  scale \<open>1024 / 800\<close> (that is 1.28), an image of spatial shape 1024 by 1024, the padding
  \<open>[(128, 128), (0, 0), (0, 0)]\<close> and the window \<open>(128, 0, 896, 1024)\<close>.
\<close>

theorem square_600_800:
  assumes "shape img = [600, 800, c]"
  shows "\<exists>r. resize_image lib img (Some 1024) (Some 1024) (Some 0) ''square'' ry rx = Inr r
             \<and> r_scale r = 1024 / 800
             \<and> shape (r_image r) = [1024, 1024, c]
             \<and> r_padding r = [(128, 128), (0, 0), (0, 0)]
             \<and> r_window r = (128, 0, 896, 1024)"
proof -
  have bs: "base_scale 600 800 (Some 1024) (Some 0) = 1024 / 600"
    by (simp add: base_scale_def)
  have sc: "compute_scale 600 800 (Some 1024) (Some 1024) (Some 0) ''square'' = Inr (32 / 25)"
    by (simp add: compute_scale_Some bs py_round_def Let_def)
  have r1: "py_round (600 * (32 / 25)) = 768" and r2: "py_round (800 * (32 / 25)) = 1024"
    by (simp_all add: py_round_def Let_def)
  have pos: "0 \<le> py_round (of_nat 600 * (32 / 25))" "0 \<le> py_round (of_nat 800 * (32 / 25))"
    using r1 r2 by simp_all
  have len: "length [c] \<le> 1" by simp
  from scale_image_ok [OF assms len pos, of lib] obtain simg where
    si: "scale_image lib img 600 800 (32 / 25) = Inr simg" and ss: "shape simg = [768, 1024, c]"
    using r1 r2 by auto
  from mode_square_ok [OF ss, of 1024] obtain img' where
    ms: "mode_square simg (Some 1024) = Inr (img', (128, 0, 896, 1024), [(128, 128), (0, 0), (0, 0)], None)"
    and s': "shape img' = [1024, 1024, c]"
    by auto
  show ?thesis
    using assms sc si ms s' by (simp add: resize_image_def astype_def Let_def)
qed

theorem square_600_800_witness:
  "\<exists>r. resize_image lib0 img0 (Some 1024) (Some 1024) (Some 0) ''square'' 0 0 = Inr r
       \<and> r_scale r = 1024 / 800
       \<and> shape (r_image r) = [1024, 1024, 3]
       \<and> r_padding r = [(128, 128), (0, 0), (0, 0)]
       \<and> r_window r = (128, 0, 896, 1024)"
  using square_600_800 [of img0 3 lib0 0 0] by (simp add: img0_def)

text \<open>
  Under \<open>binary64\<close> the example gives the same shape, padding and window, and as scale
  the float nearest to 1.28.
\<close>

lemma square_example_binary64:
  "map_sum id (\<lambda>r. (r_scale r, shape (r_image r), r_padding r, r_window r))
     (resize_image_fl binary64 lib0 img0 (Some 1024) (Some 1024) (Some 0) ''square'' 0 0) =
   Inr (binary64 (32 / 25), [1024, 1024, 3], [(128, 128), (0, 0), (0, 0)], (128, 0, 896, 1024))"
  by code_simp

subsection \<open>Pad64 mode\<close>

text \<open>
  C6. In mode \<open>pad64\<close> with \<open>min_dim\<close> a multiple of 64, for an image whose scaled
  version (the result of lines 133-149) has height \<open>sh\<close>, width \<open>sw\<close> and a channel
  axis: \<open>resize_image\<close> returns, and each spatial dimension of the returned image is the
  smallest multiple of 64 that is at least the scaled dimension (\<open>H\<close> with \<open>64 dvd H\<close>
  and \<open>sh \<le> H < sh + 64\<close>); the padding before is the floor of half the difference and
  the padding after is the rest, so a dimension that is a multiple of 64 gets \<open>(0, 0)\<close>;
  the window is the rectangle of the scaled image; and the result is the same for every
  \<open>max_dim\<close>. This holds for every rounding of the float unit (\<open>resize_image_fl\<close>).
  The first example is a scaled height of 100: it is padded to 128 by \<open>(14, 14)\<close>. The
  second is the image of height 384 and width 393 with \<open>min_dim = 448\<close> under
  \<open>binary64\<close>: the scaled width is 459 and is padded to 512 by \<open>(26, 27)\<close>.
\<close>

theorem pad64_geometry:
  assumes "shape img = hn # wn # rest"
    and "compute_scale_fl rnd (int hn) (int wn) (Some d) max_dim min_scale ''pad64'' = Inr s"
    and "scale_image_fl rnd lib img (int hn) (int wn) s = Inr simg"
    and "shape simg = [sh, sw, c]"
    and "d mod 64 = 0"
  shows "\<exists>r H W. resize_image_fl rnd lib img (Some d) max_dim min_scale ''pad64'' ry rx = Inr r
      \<and> 64 dvd H \<and> int sh \<le> H \<and> H < int sh + 64
      \<and> 64 dvd W \<and> int sw \<le> W \<and> W < int sw + 64
      \<and> shape (r_image r) = [nat H, nat W, c]
      \<and> r_padding r = [((H - int sh) div 2, (H - int sh) - (H - int sh) div 2),
                        ((W - int sw) div 2, (W - int sw) - (W - int sw) div 2), (0, 0)]
      \<and> r_window r = ((H - int sh) div 2, (W - int sw) div 2,
                       int sh + (H - int sh) div 2, int sw + (W - int sw) div 2)
      \<and> r_crop r = None
      \<and> resize_image_fl rnd lib img (Some d) max_dim' min_scale ''pad64'' ry rx = Inr r"
proof -
  have ns: "''pad64'' \<noteq> ''square''" and nn: "''pad64'' \<noteq> ''none''" by simp_all
  have sc: "compute_scale_fl rnd (int hn) (int wn) (Some d) md min_scale ''pad64'' = Inr s" for md
    using assms(2) unfolding compute_scale_fl_no_cap [OF ns, where max_dim=md]
      compute_scale_fl_no_cap [OF ns, where max_dim=max_dim] .
  from mode_pad64_ok [OF assms(4,5)] obtain img' H W where
    mp: "mode_pad64 simg (Some d) =
            Inr (img', ((H - int sh) div 2, (W - int sw) div 2,
                        int sh + (H - int sh) div 2, int sw + (W - int sw) div 2),
                 [((H - int sh) div 2, H - int sh - (H - int sh) div 2),
                  ((W - int sw) div 2, W - int sw - (W - int sw) div 2), (0, 0)], None)"
    and s': "shape img' = [nat H, nat W, c]"
    and HW: "64 dvd H" "int sh \<le> H" "H < int sh + 64" "64 dvd W" "int sw \<le> W" "W < int sw + 64"
    by blast
  define r where "r = \<lparr>r_image = astype lib img' (dtype img),
      r_window = ((H - int sh) div 2, (W - int sw) div 2,
                  int sh + (H - int sh) div 2, int sw + (W - int sw) div 2),
      r_scale = s,
      r_padding = [((H - int sh) div 2, H - int sh - (H - int sh) div 2),
                  ((W - int sw) div 2, W - int sw - (W - int sw) div 2), (0, 0)], r_crop = None\<rparr>"
  have fin: "(if ''pad64'' = ''square'' then mode_square simg md
      else if ''pad64'' = ''pad64'' then mode_pad64 simg (Some d)
      else if ''pad64'' = ''crop'' then mode_crop simg (Some d) ry rx
      else Inl (Exception (''Mode '' @ ''pad64'' @ '' not supported''))) =
        Inr (img', ((H - int sh) div 2, (W - int sw) div 2,
                    int sh + (H - int sh) div 2, int sw + (W - int sw) div 2),
                 [((H - int sh) div 2, H - int sh - (H - int sh) div 2),
                  ((W - int sw) div 2, W - int sw - (W - int sw) div 2), (0, 0)], None)" for md
    using mp by simp
  have res: "resize_image_fl rnd lib img (Some d) md min_scale ''pad64'' ry rx = Inr r" for md
    unfolding r_def by (rule resize_image_fl_steps [OF assms(1) nn sc assms(3) fin])
  have "shape (r_image r) = [nat H, nat W, c]"
    "r_padding r = [((H - int sh) div 2, H - int sh - (H - int sh) div 2),
                  ((W - int sw) div 2, W - int sw - (W - int sw) div 2), (0, 0)]"
    "r_window r = ((H - int sh) div 2, (W - int sw) div 2,
                       int sh + (H - int sh) div 2, int sw + (W - int sw) div 2)"
    "r_crop r = None"
    using s' by (simp_all add: r_def astype_def)
  with res HW show ?thesis by blast
qed


lemma pad64_example_scale:
  "compute_scale_fl binary64 (int 384) (int 393) (Some 448) None None ''pad64''
     = Inr (5254199565265579 / 4503599627370496)"
  "py_round (int_times binary64 (int 384) (5254199565265579 / 4503599627370496)) = 448"
  "py_round (int_times binary64 (int 393) (5254199565265579 / 4503599627370496)) = 459"
  by code_simp+

theorem pad64_geometry_witness:
  "(\<exists>r. resize_image_fl binary64 lib0 img1 (Some 64) (Some 1024) None ''pad64'' 0 0 = Inr r
       \<and> shape (r_image r) = [128, 256, 3]
       \<and> r_padding r = [(14, 14), (28, 28), (0, 0)]
       \<and> r_window r = (14, 28, 114, 228)
       \<and> resize_image_fl binary64 lib0 img1 (Some 64) None None ''pad64'' 0 0 = Inr r)
   \<and> (\<exists>r. resize_image_fl binary64 lib0 img2 (Some 448) None None ''pad64'' 0 0 = Inr r
       \<and> shape (r_image r) = [448, 512, 3]
       \<and> r_padding r = [(0, 0), (26, 27), (0, 0)])"
proof -
  have a1: "shape img1 = 100 # 200 # [3]" by (simp add: img1_def)
  have a2: "compute_scale_fl binary64 (int 100) (int 200) (Some 64) (Some 1024) None ''pad64'' = Inr 1"
    by code_simp
  have a3: "scale_image_fl binary64 lib0 img1 (int 100) (int 200) 1 = Inr img1"
    by (simp add: scale_image_fl_def)
  have a4: "shape img1 = [100, 200, 3]" by (simp add: img1_def)
  have a5: "(64::int) mod 64 = 0" by simp
  from pad64_geometry [OF a1 a2 a3 a4 a5, of 0 0 None]
  obtain r H W where r: "resize_image_fl binary64 lib0 img1 (Some 64) (Some 1024) None ''pad64'' 0 0 = Inr r"
    and H: "64 dvd H" "int 100 \<le> H" "H < int 100 + 64"
    and W: "64 dvd W" "int 200 \<le> W" "W < int 200 + 64"
    and s: "shape (r_image r) = [nat H, nat W, 3]"
    and p: "r_padding r = [((H - int 100) div 2, (H - int 100) - (H - int 100) div 2),
                        ((W - int 200) div 2, (W - int 200) - (W - int 200) div 2), (0, 0)]"
    and w: "r_window r = ((H - int 100) div 2, (W - int 200) div 2,
                       int 100 + (H - int 100) div 2, int 200 + (W - int 200) div 2)"
    and r': "resize_image_fl binary64 lib0 img1 (Some 64) None None ''pad64'' 0 0 = Inr r"
    by blast
  from H have H128: "H = 128" by presburger
  from W have W256: "W = 256" by presburger
  from r s p w r' have first: "\<exists>r. resize_image_fl binary64 lib0 img1 (Some 64) (Some 1024) None ''pad64'' 0 0 = Inr r
       \<and> shape (r_image r) = [128, 256, 3]
       \<and> r_padding r = [(14, 14), (28, 28), (0, 0)]
       \<and> r_window r = (14, 28, 114, 228)
       \<and> resize_image_fl binary64 lib0 img1 (Some 64) None None ''pad64'' 0 0 = Inr r"
    unfolding H128 W256 by simp
  have b1: "shape img2 = 384 # 393 # [3]" by (simp add: img2_def)
  have len: "length [3::nat] \<le> 1" by simp
  have ne: "(5254199565265579 / 4503599627370496 :: rat) \<noteq> 1" by simp
  have nn: "0 \<le> py_round (int_times binary64 (int 384) (5254199565265579 / 4503599627370496))"
    "0 \<le> py_round (int_times binary64 (int 393) (5254199565265579 / 4503599627370496))"
    unfolding pad64_example_scale by simp_all
  from scale_image_fl_ok [OF b1 len ne nn, of lib0] obtain simg where
    b3: "scale_image_fl binary64 lib0 img2 (int 384) (int 393) (5254199565265579 / 4503599627370496) = Inr simg"
    and b4: "shape simg = [448, 459, 3]"
    unfolding pad64_example_scale by auto
  have b5: "(448::int) mod 64 = 0" by simp
  from pad64_geometry [OF b1 pad64_example_scale(1) b3 b4 b5, of 0 0 None]
  obtain r2 H2 W2 where r2: "resize_image_fl binary64 lib0 img2 (Some 448) None None ''pad64'' 0 0 = Inr r2"
    and H2: "64 dvd H2" "int 448 \<le> H2" "H2 < int 448 + 64"
    and W2: "64 dvd W2" "int 459 \<le> W2" "W2 < int 459 + 64"
    and s2: "shape (r_image r2) = [nat H2, nat W2, 3]"
    and p2: "r_padding r2 = [((H2 - int 448) div 2, (H2 - int 448) - (H2 - int 448) div 2),
                        ((W2 - int 459) div 2, (W2 - int 459) - (W2 - int 459) div 2), (0, 0)]"
    by blast
  from H2 have H448: "H2 = 448" by presburger
  from W2 have W512: "W2 = 512" by presburger
  from r2 s2 p2 have second: "\<exists>r. resize_image_fl binary64 lib0 img2 (Some 448) None None ''pad64'' 0 0 = Inr r
       \<and> shape (r_image r) = [448, 512, 3]
       \<and> r_padding r = [(0, 0), (26, 27), (0, 0)]"
    unfolding H448 W512 by simp
  from first second show ?thesis by blast
qed

subsection \<open>Crop mode\<close>

text \<open>
  C7. In mode \<open>crop\<close> with a non-negative \<open>min_dim\<close>, if the scaled image (the result of
  lines 133-149) has height and width at least \<open>min_dim\<close>, then for every pair of raw
  draws \<open>resize_image\<close> returns; the offsets satisfy \<open>0 \<le> y \<le> h - min_dim\<close> and
  \<open>0 \<le> x \<le> w - min_dim\<close>; the recorded crop is \<open>(y, x, min_dim, min_dim)\<close> and lies
  inside the scaled image; the returned image has spatial shape \<open>min_dim\<close> by \<open>min_dim\<close>;
  and the window is \<open>(0, 0, min_dim, min_dim)\<close>. By \<open>randint_onto\<close> every offset of the
  range is the result of some draw.
\<close>

theorem crop_mode_bounds:
  assumes "shape img = hn # wn # rest"
    and "compute_scale (int hn) (int wn) (Some d) max_dim min_scale ''crop'' = Inr s"
    and "scale_image lib img (int hn) (int wn) s = Inr simg"
    and "shape simg = sh # sw # rest'"
    and "0 \<le> d" and "d \<le> int sh" and "d \<le> int sw"
  shows "\<exists>r y x. resize_image lib img (Some d) max_dim min_scale ''crop'' ry rx = Inr r
           \<and> 0 \<le> y \<and> y \<le> int sh - d \<and> 0 \<le> x \<and> x \<le> int sw - d
           \<and> r_crop r = Some (y, x, d, d) \<and> y + d \<le> int sh \<and> x + d \<le> int sw
           \<and> shape (r_image r) = nat d # nat d # rest'
           \<and> r_window r = (0, 0, d, d)"
proof -
  from mode_crop_ok [OF assms(4-7), of ry rx] obtain img' y x where
    mc: "mode_crop simg (Some d) ry rx =
            Inr (img', (0, 0, d, d), [(0, 0), (0, 0), (0, 0)], Some (y, x, d, d))"
    and b: "0 \<le> y" "y \<le> int sh - d" "0 \<le> x" "x \<le> int sw - d"
    and s': "shape img' = nat d # nat d # rest'"
    by blast
  have nn: "''crop'' \<noteq> ''none''" by simp
  have fin: "(if ''crop'' = ''square'' then mode_square simg max_dim
      else if ''crop'' = ''pad64'' then mode_pad64 simg (Some d)
      else if ''crop'' = ''crop'' then mode_crop simg (Some d) ry rx
      else Inl (Exception (''Mode '' @ ''crop'' @ '' not supported''))) =
        Inr (img', (0, 0, d, d), [(0, 0), (0, 0), (0, 0)], Some (y, x, d, d))"
    using mc by simp
  define r where "r = \<lparr>r_image = astype lib img' (dtype img), r_window = (0, 0, d, d),
      r_scale = s, r_padding = [(0, 0), (0, 0), (0, 0)], r_crop = Some (y, x, d, d)\<rparr>"
  have res: "resize_image lib img (Some d) max_dim min_scale ''crop'' ry rx = Inr r"
    unfolding r_def by (rule resize_image_steps [OF assms(1) nn assms(2) assms(3) fin])
  have "r_crop r = Some (y, x, d, d)" "shape (r_image r) = nat d # nat d # rest'"
    "r_window r = (0, 0, d, d)"
    using s' by (simp_all add: r_def astype_def)
  moreover have "y + d \<le> int sh" "x + d \<le> int sw" using b by simp_all
  ultimately show ?thesis using res b by blast
qed

theorem crop_mode_bounds_witness:
  "\<exists>r y x. resize_image lib0 img0 (Some 512) None None ''crop'' 12345 777 = Inr r
           \<and> 0 \<le> y \<and> y \<le> 600 - 512 \<and> 0 \<le> x \<and> x \<le> 800 - 512
           \<and> r_crop r = Some (y, x, 512, 512) \<and> y + 512 \<le> 600 \<and> x + 512 \<le> 800
           \<and> shape (r_image r) = [512, 512, 3]
           \<and> r_window r = (0, 0, 512, 512)"
proof -
  have a1: "shape img0 = 600 # 800 # [3]" by (simp add: img0_def)
  have a2: "compute_scale (int 600) (int 800) (Some 512) None None ''crop'' = Inr 1"
    by (simp add: compute_scale_def)
  have a3: "scale_image lib0 img0 (int 600) (int 800) 1 = Inr img0"
    by (simp add: scale_image_def)
  have a5: "(0::int) \<le> 512" "512 \<le> int 600" "512 \<le> int 800" by simp_all
  from crop_mode_bounds [OF a1 a2 a3 a1 a5, of 12345 777] show ?thesis by simp
qed

subsection \<open>The scale factor\<close>

text \<open>
  C3. For an image of positive height and width, in every mode other than \<open>none\<close> and
  with \<open>min_dim\<close> provided, the scale that \<open>resize_image\<close> returns is the one the
  specification words, computed with the same float operations:
  \<open>max(1, min_dim / min(h, w))\<close>, raised to \<open>min_scale\<close> when that is provided and
  larger, and in square mode with \<open>max_dim\<close> provided replaced by
  \<open>max_dim / max(h, w)\<close> when the rounded longest side would exceed \<open>max_dim\<close>. This
  holds for every rounding of the float unit that leaves 0 unchanged (\<open>resize_image_fl\<close>),
  so for \<open>binary64\<close> and for exact arithmetic. The example is the image of height 384 and width 393 with
  \<open>min_dim = 448\<close> and \<open>max_dim = 458\<close> under \<open>binary64\<close>: \<open>393 * (448 / 384)\<close> is
  rounded to a float above 458.5, the longest side would be 459, and the scale becomes
  the float nearest to \<open>458 / 393\<close>. The second example is a cap that brings the scale
  below 1: height 600, width 800, \<open>min_dim = 64\<close>, \<open>max_dim = 400\<close> give \<open>1 / 2\<close>.
\<close>

theorem scale_matches_spec:
  fixes rnd :: "rat \<Rightarrow> rat"
  assumes "resize_image_fl rnd lib img (Some d) max_dim min_scale mode ry rx = Inr r"
    and "mode \<noteq> ''none''"
    and "shape img = hn # wn # rest" and "0 < hn" and "0 < wn"
    and "rnd 0 = 0"
  shows "r_scale r = spec_scale rnd (int hn) (int wn) d max_dim min_scale mode"
proof -
  let ?h = "int hn" and ?w = "int wn"
  from resize_image_fl_Inr_steps [OF assms(1,2)] assms(3) obtain simg img' where
    cs: "compute_scale_fl rnd ?h ?w (Some d) max_dim min_scale mode = Inr (r_scale r)"
    and si: "scale_image_fl rnd lib img ?h ?w (r_scale r) = Inr simg"
    and fin: "(if mode = ''square'' then mode_square simg max_dim
            else if mode = ''pad64'' then mode_pad64 simg (Some d)
            else if mode = ''crop'' then mode_crop simg (Some d) ry rx
            else Inl (Exception (''Mode '' @ mode @ '' not supported'')))
             = Inr (img', r_window r, r_padding r, r_crop r)"
    by auto
  define s where "s = (case min_scale of
                         None \<Rightarrow> max 1 (float_div rnd d (min ?h ?w))
                       | Some m \<Rightarrow> if max 1 (float_div rnd d (min ?h ?w)) < m then m
                                   else max 1 (float_div rnd d (min ?h ?w)))"
  note unf = compute_scale_fl_Inr [OF cs assms(6), folded s_def]
  have spec: "spec_scale rnd ?h ?w d max_dim min_scale mode =
      (case max_dim of None \<Rightarrow> s
       | Some M \<Rightarrow> if mode = ''square'' \<and> py_round (int_times rnd (max ?h ?w) s) > M
                   then float_div rnd M (max ?h ?w) else s)"
    unfolding spec_scale_def s_def Let_def ..
  show ?thesis
  proof (cases max_dim)
    case None
    with unf spec show ?thesis by simp
  next
    case (Some M)
    show ?thesis
    proof (cases "mode = ''square'' \<and> py_round (int_times rnd (max ?h ?w) s) > M")
      case False
      with unf spec Some show ?thesis by (auto split: if_splits)
    next
      case True
      show ?thesis
      proof (cases "M = 0")
        case False
        with True unf spec Some show ?thesis by (auto split: if_splits)
      next
        case M0: True
        with unf Some have rs: "r_scale r = s" by simp
        from fin True Some M0
        have "mode_square simg (Some 0) = Inr (img', r_window r, r_padding r, r_crop r)"
          by simp
        from mode_square_Inr [OF this] obtain sh sw c where
          ss: "shape simg = [sh, sw, c]" "sh = 0" "sw = 0" by auto
        from scale_image_fl_Inr [OF si assms(3)] ss rs
        have "nat (py_round (int_times rnd ?h s)) = 0" "nat (py_round (int_times rnd ?w s)) = 0"
          by auto
        then have le: "py_round (int_times rnd ?h s) \<le> 0" "py_round (int_times rnd ?w s) \<le> 0"
          by simp_all
        have "max ?h ?w = ?h \<or> max ?h ?w = ?w" by (simp add: max_def)
        with le have "py_round (int_times rnd (max ?h ?w) s) \<le> 0" by auto
        with True M0 show ?thesis by simp
      qed
    qed
  qed
qed

lemma cap_example_returns:
  "map_sum id (\<lambda>r. (r_scale r, shape (r_image r)))
     (resize_image_fl binary64 lib0 img2 (Some 448) (Some 458) None ''square'' 0 0) =
   Inr (164014681085853 / 140737488355328, [458, 458, 3])"
  by code_simp

lemma cap_below_one_returns:
  "map_sum id r_scale
     (resize_image_fl binary64 lib0 img0 (Some 64) (Some 400) None ''square'' 0 0) = Inr (1 / 2)"
  by code_simp

theorem scale_matches_spec_witness:
  "\<exists>r r'. resize_image_fl binary64 lib0 img2 (Some 448) (Some 458) None ''square'' 0 0 = Inr r
       \<and> r_scale r = spec_scale binary64 384 393 448 (Some 458) None ''square''
       \<and> r_scale r = 164014681085853 / 140737488355328
       \<and> shape (r_image r) = [458, 458, 3]
       \<and> resize_image_fl binary64 lib0 img0 (Some 64) (Some 400) None ''square'' 0 0 = Inr r'
       \<and> r_scale r' = spec_scale binary64 600 800 64 (Some 400) None ''square''
       \<and> r_scale r' = 1 / 2 \<and> r_scale r' < 1"
proof -
  from cap_example_returns obtain r where
    r: "resize_image_fl binary64 lib0 img2 (Some 448) (Some 458) None ''square'' 0 0 = Inr r"
    and v: "r_scale r = 164014681085853 / 140737488355328" "shape (r_image r) = [458, 458, 3]"
    by (cases "resize_image_fl binary64 lib0 img2 (Some 448) (Some 458) None ''square'' 0 0") auto
  from cap_below_one_returns obtain r' where
    r': "resize_image_fl binary64 lib0 img0 (Some 64) (Some 400) None ''square'' 0 0 = Inr r'"
    and v': "r_scale r' = 1 / 2"
    by (cases "resize_image_fl binary64 lib0 img0 (Some 64) (Some 400) None ''square'' 0 0") auto
  have nn: "''square'' \<noteq> ''none''" by simp
  have sh: "shape img2 = 384 # 393 # [3]" "shape img0 = 600 # 800 # [3]"
    by (simp_all add: img2_def img0_def)
  have pos: "(0::nat) < 384" "(0::nat) < 393" "(0::nat) < 600" "(0::nat) < 800" by simp_all
  from scale_matches_spec [OF r nn sh(1) pos(1,2) binary64_zero]
  have e: "r_scale r = spec_scale binary64 384 393 448 (Some 458) None ''square''" by simp
  from scale_matches_spec [OF r' nn sh(2) pos(3,4) binary64_zero]
  have e': "r_scale r' = spec_scale binary64 600 800 64 (Some 400) None ''square''" by simp
  from r e v r' e' v' show ?thesis by simp
qed

text \<open>
  With exact arithmetic the product at this input is the tie 458.5, which rounds to the
  even 458: the cap is not applied and the scale stays \<open>7 / 6\<close>.
\<close>

lemma exact_arithmetic_differs:
  "map_sum id (\<lambda>r. (r_scale r, shape (r_image r)))
     (resize_image lib0 img2 (Some 448) (Some 458) None ''square'' 0 0) =
   Inr (7 / 6, [458, 458, 3])"
  by code_simp

subsection \<open>The padding list after \<open>resize_mask\<close>\<close>

text \<open>
  C10. When \<open>resize_mask\<close> is called with \<open>crop = None\<close> and a padding list of three
  entries, and the zoom at line 209 does not raise, the call removes entry 2 from the
  caller's list before padding: the mask is padded with the first two entries, the list
  has length 2 after the call, and a second call with that same list raises \<open>IndexError\<close>
  at \<open>padding.pop(2)\<close>.
\<close>

theorem resize_mask_pops_padding:
  assumes "ndimage_zoom lib msk [scale, scale] = Inr z"
  shows "snd (resize_mask lib msk scale [p0, p1, p2] None) = [p0, p1]
       \<and> length (snd (resize_mask lib msk scale [p0, p1, p2] None)) = 2
       \<and> fst (resize_mask lib msk scale [p0, p1, p2] None) = np_pad z [p0, p1]
       \<and> resize_mask lib msk scale (snd (resize_mask lib msk scale [p0, p1, p2] None)) None
           = (Inl IndexError, [p0, p1])"
  using assms by (simp add: resize_mask_def list_pop_def)

theorem resize_mask_pops_padding_witness:
  "snd (resize_mask lib0 msk0 (32 / 25) [(128, 128), (0, 0), (0, 0)] None) = [(128, 128), (0, 0)]
   \<and> length (snd (resize_mask lib0 msk0 (32 / 25) [(128, 128), (0, 0), (0, 0)] None)) = 2
   \<and> resize_mask lib0 msk0 (32 / 25)
        (snd (resize_mask lib0 msk0 (32 / 25) [(128, 128), (0, 0), (0, 0)] None)) None
       = (Inl IndexError, [(128, 128), (0, 0)])"
proof -
  have sh: "shape msk0 = [600, 800]" by (simp add: msk0_def)
  have pos: "0 \<le> py_round (of_nat 600 * (32 / 25))" "0 \<le> py_round (of_nat 800 * (32 / 25))"
    by (simp_all add: py_round_def Let_def)
  from ndimage_zoom_2 [OF sh pos, of lib0] obtain z where
    z: "ndimage_zoom lib0 msk0 [32 / 25, 32 / 25] = Inr z" by blast
  note t = resize_mask_pops_padding [OF z, of "(128, 128)" "(0, 0)" "(0, 0)"]
  show ?thesis
    by (intro conjI) (rule t [THEN conjunct1], rule t [THEN conjunct2, THEN conjunct1],
        rule t [THEN conjunct2, THEN conjunct2, THEN conjunct2])
qed

subsection \<open>Shape consistency of image and mask\<close>



subsection \<open>The label map\<close>

text \<open>
  C5. The label map that \<open>__getitem__\<close> builds before resizing (lines 70-75), for
  annotations rasterised at the size of the image and label values (category ids in test
  mode, \<open>step + 1\<close> in training mode) that fit the unsigned 8-bit elements of a
  rasterised instance, that is from 0 to 255: the loop returns a map, it has the shape
  of the image, and every pixel holds the maximum of the label values of the instances
  that cover it, and 0 where no instance covers it (\<open>spec_label\<close>; by \<open>spec_label_Max\<close>
  it is the maximum of that set). For a label outside that range the product
  \<open>annToMask(ann) * label\<close> depends on the NumPy version (\<open>OverflowError\<close> in NumPy 2)
  and nothing is claimed. The example: two overlapping instances labelled 2 and 3 in
  test mode give 3 on the overlap, 2 and 3 on the rest of each instance, and 0 on the
  background.
\<close>

theorem label_map_max_combine:
  assumes "\<forall>ann \<in> set anns. img_height ann = rows \<and> img_width ann = cols"
    and "\<forall>ann \<in> set anns. 0 \<le> label_value test step ann \<and> label_value test step ann \<le> 255"
    and "i < rows" and "j < cols"
  shows "\<exists>m. label_map lib test step rows cols anns = Inr m \<and> shape m = [rows, cols]
             \<and> data m [i, j] = of_int (spec_label test step anns i j)"
proof -
  have z: "shape (np_zeros [rows, cols]) = [rows, cols]" "data (np_zeros [rows, cols]) [i, j] = 0"
    by (simp_all add: np_zeros_def)
  from label_loop_pixel [OF z(1) assms(1,2,3,4), of lib] obtain m where
    "label_loop lib test step (np_zeros [rows, cols]) anns = Inr m" "shape m = [rows, cols]"
    "data m [i, j] = pixel_fold test step i j anns 0"
    unfolding z(2) by blast
  moreover from assms(2) have "\<forall>ann \<in> set anns. 0 \<le> label_value test step ann" by blast
  ultimately show ?thesis
    by (simp add: label_map_def pixel_fold_spec)
qed

theorem label_map_max_combine_witness:
  "\<exists>m. label_map lib0 True 0 2 2 [ann2, ann3] = Inr m
       \<and> data m [0, 0] = 2 \<and> data m [0, 1] = 3 \<and> data m [1, 1] = 3 \<and> data m [1, 0] = 0"
proof -
  have a: "\<forall>ann \<in> set [ann2, ann3]. img_height ann = 2 \<and> img_width ann = 2"
    by (simp add: ann2_def ann3_def)
  have b: "\<forall>ann \<in> set [ann2, ann3]. 0 \<le> label_value True 0 ann \<and> label_value True 0 ann \<le> 255"
    by (simp add: ann2_def ann3_def label_value_def)
  have l: "(0::nat) < 2" "(1::nat) < 2" by simp_all
  note t = label_map_max_combine [OF a b, of _ _ lib0]
  from t [OF l(1) l(1)] obtain m where m: "label_map lib0 True 0 2 2 [ann2, ann3] = Inr m"
    and p00: "data m [0, 0] = of_int (spec_label True 0 [ann2, ann3] 0 0)" by blast
  from t [OF l(1) l(2)] m have p01: "data m [0, 1] = of_int (spec_label True 0 [ann2, ann3] 0 1)"
    by auto
  from t [OF l(2) l(2)] m have p11: "data m [1, 1] = of_int (spec_label True 0 [ann2, ann3] 1 1)"
    by auto
  from t [OF l(2) l(1)] m have p10: "data m [1, 0] = of_int (spec_label True 0 [ann2, ann3] 1 0)"
    by auto
  have v: "spec_label True 0 [ann2, ann3] 0 0 = 2" "spec_label True 0 [ann2, ann3] 0 1 = 3"
    "spec_label True 0 [ann2, ann3] 1 1 = 3" "spec_label True 0 [ann2, ann3] 1 0 = 0"
    by (simp_all add: spec_label_def covering_def label_value_def ann2_def ann3_def)
  have q: "data m [0, 0] = 2" "data m [0, 1] = 3" "data m [1, 1] = 3" "data m [1, 0] = 0"
    unfolding p00 p01 p11 p10 v by simp_all
  from m q show ?thesis by blast
qed

text \<open>
  A category id of 256 does not fit the 8-bit elements of the rasterised instance: under
  NumPy 2 the product, and with it the loop, raises \<open>OverflowError\<close>.
\<close>

lemma label_overflow_example:
  "label_map lib0 True 0 2 2 [ann2\<lparr>category_id := 256\<rparr>] = Inl OverflowError"
  by (simp add: label_map_def mul_scalar_def annToMask_def lib0_def ann2_def)

subsection \<open>When \<open>resize_image\<close> raises and when it returns\<close>

text \<open>
  C8, as amended. For every rounding of the float unit (\<open>resize_image_fl\<close>) and an
  image whose scaled version (the result of lines 133-149) has height \<open>sh\<close>, width \<open>sw\<close>
  and a channel axis, and leaving aside pad64 mode without \<open>min_dim\<close> (the docstring
  calls \<open>min_dim\<close> optional there, line 165 needs it): \<open>resize_image\<close> raises \<open>Exception("Mode ... not supported")\<close> exactly when the mode is
  not one of \<open>none\<close>, \<open>square\<close>, \<open>pad64\<close>, \<open>crop\<close>, and fails the assertion of line 165
  exactly when the mode is \<open>pad64\<close> and \<open>min_dim\<close> is not a multiple of 64. It does not
  return on every other input: it raises \<open>TypeError\<close> exactly in square mode without
  \<open>max_dim\<close> and in crop mode without \<open>min_dim\<close>, and it returns exactly in mode
  \<open>none\<close>, in square mode when \<open>max_dim\<close> is at least \<open>sh\<close> and \<open>sw\<close>, in pad64 mode
  with \<open>min_dim\<close> a multiple of 64, and in crop mode when \<open>min_dim\<close> is at most \<open>sh\<close>
  and \<open>sw\<close> (\<open>np.pad\<close> refuses a negative width, \<open>randint\<close> an empty range).
\<close>

theorem resize_image_outcomes:
  assumes "shape img = hn # wn # rest"
    and "compute_scale_fl rnd (int hn) (int wn) min_dim max_dim min_scale mode = Inr s"
    and "scale_image_fl rnd lib img (int hn) (int wn) s = Inr simg"
    and "shape simg = [sh, sw, c]"
    and "mode = ''pad64'' \<longrightarrow> min_dim \<noteq> None"
  shows "((\<exists>msg. resize_image_fl rnd lib img min_dim max_dim min_scale mode ry rx = Inl (Exception msg))
            = (mode \<notin> {''none'', ''square'', ''pad64'', ''crop''}))
       \<and> ((resize_image_fl rnd lib img min_dim max_dim min_scale mode ry rx = Inl AssertionError)
            = (mode = ''pad64'' \<and> (\<exists>d. min_dim = Some d \<and> d mod 64 \<noteq> 0)))
       \<and> ((resize_image_fl rnd lib img min_dim max_dim min_scale mode ry rx = Inl TypeError)
            = (mode = ''square'' \<and> max_dim = None \<or> mode = ''crop'' \<and> min_dim = None))
       \<and> ((\<exists>r. resize_image_fl rnd lib img min_dim max_dim min_scale mode ry rx = Inr r)
            = (mode = ''none''
               \<or> mode = ''square'' \<and> (\<exists>M. max_dim = Some M \<and> int sh \<le> M \<and> int sw \<le> M)
               \<or> mode = ''pad64'' \<and> (\<exists>d. min_dim = Some d \<and> d mod 64 = 0)
               \<or> mode = ''crop'' \<and> (\<exists>d. min_dim = Some d \<and> d \<le> int sh \<and> d \<le> int sw)))"
proof -
  define res where "res = resize_image_fl rnd lib img min_dim max_dim min_scale mode ry rx"
  define fin where "fin = (if mode = ''square'' then mode_square simg max_dim
      else if mode = ''pad64'' then mode_pad64 simg min_dim
      else if mode = ''crop'' then mode_crop simg min_dim ry rx
      else Inl (Exception (''Mode '' @ mode @ '' not supported'')))"
  have ss: "shape simg = sh # sw # [c]" using assms(4) by simp
  have inl: "res = Inl e" if "mode \<noteq> ''none''" "fin = Inl e" for e
    unfolding res_def
    by (rule resize_image_fl_steps_Inl [OF assms(1) that(1) assms(2,3) that(2) [unfolded fin_def]])
  have inr: "\<exists>r. res = Inr r" if "mode \<noteq> ''none''" "fin = Inr q" for q
  proof -
    obtain img' win pad cr where q: "q = (img', win, pad, cr)" by (cases q) auto
    from resize_image_fl_steps [OF assms(1) that(1) assms(2,3) that(2) [unfolded fin_def q]]
    show ?thesis unfolding res_def by blast
  qed
  consider (none) "mode = ''none''" | (square) "mode = ''square''" | (pad64) "mode = ''pad64''"
    | (crop) "mode = ''crop''"
    | (other) "mode \<noteq> ''none''" "mode \<noteq> ''square''" "mode \<noteq> ''pad64''" "mode \<noteq> ''crop''"
    by blast
  then have "((\<exists>msg. res = Inl (Exception msg))
            = (mode \<notin> {''none'', ''square'', ''pad64'', ''crop''}))
       \<and> ((res = Inl AssertionError)
            = (mode = ''pad64'' \<and> (\<exists>d. min_dim = Some d \<and> d mod 64 \<noteq> 0)))
       \<and> ((res = Inl TypeError)
            = (mode = ''square'' \<and> max_dim = None \<or> mode = ''crop'' \<and> min_dim = None))
       \<and> ((\<exists>r. res = Inr r)
            = (mode = ''none''
               \<or> mode = ''square'' \<and> (\<exists>M. max_dim = Some M \<and> int sh \<le> M \<and> int sw \<le> M)
               \<or> mode = ''pad64'' \<and> (\<exists>d. min_dim = Some d \<and> d mod 64 = 0)
               \<or> mode = ''crop'' \<and> (\<exists>d. min_dim = Some d \<and> d \<le> int sh \<and> d \<le> int sw)))"
  proof cases
    case none
    then have "\<exists>r. res = Inr r"
      unfolding res_def using assms(1) by (simp add: resize_image_fl_def Let_def)
    then obtain r where "res = Inr r" by blast
    then show ?thesis using none by simp
  next
    case other
    then have "fin = Inl (Exception (''Mode '' @ mode @ '' not supported''))"
      by (simp add: fin_def)
    from inl [OF other(1) this] show ?thesis using other by simp
  next
    case pad64
    then have nn: "mode \<noteq> ''none''" by simp
    from pad64 assms(5) obtain d where Some: "min_dim = Some d" by auto
    show ?thesis
    proof (cases "d mod 64 = 0")
      case True
      from mode_pad64_ok [OF assms(4) True] obtain q where "fin = Inr q"
        unfolding fin_def pad64 Some by auto
      from inr [OF nn this] obtain r where "res = Inr r" by blast
      then show ?thesis using pad64 Some True by simp
    next
      case False
      from mode_pad64_not_multiple [OF ss False] have "fin = Inl AssertionError"
        unfolding fin_def pad64 Some by simp
      from inl [OF nn this] show ?thesis using pad64 Some False by simp
    qed
  next
    case crop
    then have nn: "mode \<noteq> ''none''" by simp
    show ?thesis
    proof (cases min_dim)
      case None
      from mode_crop_no_min_dim [OF ss] have "fin = Inl TypeError"
        unfolding fin_def crop None by simp
      from inl [OF nn this] show ?thesis using crop None by simp
    next
      case (Some d)
      show ?thesis
      proof (cases "d \<le> int sh \<and> d \<le> int sw")
        case True
        then have "d \<le> int sh" "d \<le> int sw" by simp_all
        from mode_crop_returns [OF ss this, of ry rx] obtain q where "fin = Inr q"
          unfolding fin_def crop Some by auto
        from inr [OF nn this] obtain r where "res = Inr r" by blast
        then show ?thesis using crop Some True by simp
      next
        case False
        then have "int sh < d \<or> int sw < d" by auto
        from mode_crop_too_large [OF ss this] have "fin = Inl ValueError"
          unfolding fin_def crop Some by simp
        from inl [OF nn this] show ?thesis using crop Some False by simp
      qed
    qed
  next
    case square
    then have nn: "mode \<noteq> ''none''" by simp
    show ?thesis
    proof (cases max_dim)
      case None
      from mode_square_no_max_dim [OF ss] have "fin = Inl TypeError"
        unfolding fin_def square None by simp
      from inl [OF nn this] show ?thesis using square None by simp
    next
      case (Some M)
      show ?thesis
      proof (cases "int sh \<le> M \<and> int sw \<le> M")
        case True
        then have "int sh \<le> M" "int sw \<le> M" by simp_all
        from mode_square_ok [OF assms(4) this] obtain q where "fin = Inr q"
          unfolding fin_def square Some by auto
        from inr [OF nn this] obtain r where "res = Inr r" by blast
        then show ?thesis using square Some True by simp
      next
        case False
        then have "M < int sh \<or> M < int sw" by auto
        from mode_square_too_small [OF assms(4) this] have "fin = Inl ValueError"
          unfolding fin_def square Some by simp
        from inl [OF nn this] show ?thesis using square Some False by simp
      qed
    qed
  qed
  then show ?thesis unfolding res_def .
qed


lemma outcomes_example_scale:
  "compute_scale_fl binary64 (int 600) (int 800) None None None m = Inr 1"
  "compute_scale_fl binary64 (int 600) (int 800) (Some 100) None None ''pad64'' = Inr 1"
  "compute_scale_fl binary64 (int 600) (int 800) (Some 512) None None ''crop'' = Inr 1"
  "compute_scale_fl binary64 (int 600) (int 800) (Some 512) (Some 0) None ''square'' = Inr 1"
  by (simp add: compute_scale_fl_def, code_simp+)

theorem resize_image_outcomes_witness:
  "resize_image_fl binary64 lib0 img0 (Some 100) None None ''pad64'' 0 0 = Inl AssertionError
   \<and> (\<exists>msg. resize_image_fl binary64 lib0 img0 None None None ''fill'' 0 0 = Inl (Exception msg))
   \<and> resize_image_fl binary64 lib0 img0 None None None ''crop'' 0 0 = Inl TypeError
   \<and> (\<exists>r. resize_image_fl binary64 lib0 img0 (Some 512) None None ''crop'' 0 0 = Inr r)
   \<and> \<not> (\<exists>r. resize_image_fl binary64 lib0 img0 (Some 512) (Some 0) None ''square'' 0 0 = Inr r)"
proof -
  have a1: "shape img0 = 600 # 800 # [3]" and a4: "shape img0 = [600, 800, 3]"
    by (simp_all add: img0_def)
  have a3: "scale_image_fl binary64 lib0 img0 (int 600) (int 800) 1 = Inr img0"
    by (simp add: scale_image_fl_def)
  note t = resize_image_outcomes [OF a1 _ a3 a4, of _ _ _ _ 0 0]
  have 1: "resize_image_fl binary64 lib0 img0 (Some 100) None None ''pad64'' 0 0 = Inl AssertionError"
    using t [OF outcomes_example_scale(2)] by simp
  have 2: "\<exists>msg. resize_image_fl binary64 lib0 img0 None None None ''fill'' 0 0 = Inl (Exception msg)"
    using t [OF outcomes_example_scale(1) [of "''fill''"]] by simp
  have 3: "resize_image_fl binary64 lib0 img0 None None None ''crop'' 0 0 = Inl TypeError"
    using t [OF outcomes_example_scale(1) [of "''crop''"]] by simp
  have 4: "\<exists>r. resize_image_fl binary64 lib0 img0 (Some 512) None None ''crop'' 0 0 = Inr r"
    using t [OF outcomes_example_scale(3)] by simp
  have 5: "\<not> (\<exists>r. resize_image_fl binary64 lib0 img0 (Some 512) (Some 0) None ''square'' 0 0 = Inr r)"
    using t [OF outcomes_example_scale(4)] by simp
  from 1 2 3 4 5 show ?thesis by blast
qed

text \<open>
  C8, as stated, fails: with the default arguments (mode \<open>square\<close>, no \<open>max_dim\<close>) the
  mode is supported and the input is a well-shaped image, yet the call raises \<open>TypeError\<close>
  at \<open>max_dim - h\<close> (line 155) instead of returning.
\<close>

theorem default_arguments_raise:
  "''square'' \<in> {''none'', ''square'', ''pad64'', ''crop''}
   \<and> resize_image lib0 img0 None None None ''square'' 0 0 = Inl TypeError
   \<and> \<not> (\<exists>r. resize_image lib0 img0 None None None ''square'' 0 0 = Inr r)
   \<and> resize_image_fl binary64 lib0 img0 None None None ''square'' 0 0 = Inl TypeError"
  by (simp add: resize_image_def resize_image_fl_def img0_def lib0_def compute_scale_def
      compute_scale_fl_def scale_image_def scale_image_fl_def mode_square_def Let_def)

end
